theory Spec2Isabelle
  imports Main "HOL-Library.Word" "HOL-Library.Sublist"
begin

unbundle bit_operations_syntax

section \<open>Data model\<close>

text \<open>
  A Python \<open>str\<close> is a sequence of Unicode code points; \<open>ord\<close> of a character is its
  code point, an unbounded natural number, and \<open>len\<close> counts code points. A bit string is
  a Python \<open>str\<close> made of the characters \<open>'0'\<close> and \<open>'1'\<close> only (it is produced by
  \<open>format(_, '08b')\<close> and by \<open>str(flat[i] & 1)\<close>); it is modelled as a list of booleans,
  \<open>True\<close> for \<open>'1'\<close>. The pixel buffer is the flattened \<open>uint8\<close> array of an RGB image.
\<close>

type_synonym pystr = "nat list"
type_synonym bits = "bool list"
type_synonym sample = "8 word"
type_synonym buffer = "sample list"

definition py_str :: "string \<Rightarrow> pystr" where
  "py_str s = map of_char s"

definition is_ascii :: "pystr \<Rightarrow> bool" where
  "is_ascii s = list_all (\<lambda>c. c < 128) s"

datatype error = ValueError string

section \<open>WatermarkProcessor (backend.py) and the helpers of watermark\_gui.py\<close>

subsection \<open>str\_to\_bin\<close>

text \<open>\<open>format(n, 'b')\<close>: the binary digits of \<open>n\<close>, most significant first, \<open>"0"\<close> for 0.\<close>

fun bin_digits :: "nat \<Rightarrow> bits" where
  "bin_digits n = (if n < 2 then [n = 1] else bin_digits (n div 2) @ [odd n])"

declare bin_digits.simps [simp del]

text \<open>\<open>format(n, '08b')\<close>: zero-padded on the left to a width of at least 8.\<close>

definition format_08b :: "nat \<Rightarrow> bits" where
  "format_08b n = (let d = bin_digits n in replicate (8 - length d) False @ d)"

text \<open>\<open>''.join([format(ord(i), '08b') for i in s])\<close>\<close>

definition str_to_bin :: "pystr \<Rightarrow> bits" where
  "str_to_bin s = concat (map format_08b s)"

subsection \<open>bin\_to\_str\<close>

text \<open>\<open>int(c, 2)\<close> on a string of binary digits.\<close>

definition int_base2 :: "bits \<Rightarrow> nat" where
  "int_base2 c = foldl (\<lambda>a b. 2 * a + (if b then 1 else 0)) 0 c"

text \<open>\<open>range(0, n, 8)\<close>\<close>

definition range_step8 :: "nat \<Rightarrow> nat list" where
  "range_step8 n = map (\<lambda>k. 8 * k) [0..<(n + 7) div 8]"

text \<open>
  \<open>chars = [b[i:i+8] for i in range(0, len(b), 8)]\<close>, then
  \<open>''.join([chr(int(c, 2)) for c in chars if len(c) == 8])\<close>.
\<close>

definition bin_to_str :: "bits \<Rightarrow> pystr" where
  "bin_to_str b =
     (let chars = map (\<lambda>i. take 8 (drop i b)) (range_step8 (length b))
      in map int_base2 (filter (\<lambda>c. length c = 8) chars))"

subsection \<open>embed\_watermark\<close>

text \<open>The EOF marker \<open>'1111111111111110'\<close>.\<close>

definition eof_marker :: bits where
  "eof_marker = [True, True, True, True, True, True, True, True,
                 True, True, True, True, True, True, True, False]"

text \<open>Loop body: \<open>flat[i] = (flat[i] & 0xFE) | int(data[i])\<close>.\<close>

definition set_lsb :: "bits \<Rightarrow> nat \<Rightarrow> buffer \<Rightarrow> buffer" where
  "set_lsb data i flat = flat[i := (flat ! i AND 0xFE) OR (if data ! i then 1 else 0)]"

text \<open>\<open>for i in range(len(data)): ...\<close>, run after the capacity check.\<close>

definition write_bits :: "bits \<Rightarrow> buffer \<Rightarrow> buffer" where
  "write_bits data flat = fold (set_lsb data) [0..<length data] flat"

text \<open>
  The function on values: the flattened pixels of the image go in, the flattened pixels of
  the returned image come out (\<open>reshape\<close> and \<open>flatten\<close> keep the order), and the
  \<open>raise ValueError(...)\<close> is the \<open>Inl\<close> result.
\<close>

definition embed_watermark :: "buffer \<Rightarrow> pystr \<Rightarrow> error + buffer" where
  "embed_watermark img watermark_json =
     (let data = str_to_bin watermark_json @ eof_marker;
          flat = img
      in if length data > length flat
         then Inl (ValueError ''Watermark data is too large for this image.'')
         else Inr (write_bits data flat))"

text \<open>
  The same function on a store of array objects, for the claims about mutation. An object
  is addressed by its index in the store. \<open>np.array(img)\<close> and \<open>arr.flatten()\<close> each
  allocate a fresh copy, the loop writes in place into \<open>flat\<close>, and the returned image is
  a new object built from \<open>flat\<close>.
\<close>

type_synonym store = "buffer list"

definition alloc :: "store \<Rightarrow> buffer \<Rightarrow> store \<times> nat" where
  "alloc h b = (h @ [b], length h)"

definition set_lsb_st :: "bits \<Rightarrow> nat \<Rightarrow> nat \<Rightarrow> store \<Rightarrow> store" where
  "set_lsb_st data flat i h = h[flat := set_lsb data i (h ! flat)]"

definition embed_watermark_st :: "store \<Rightarrow> nat \<Rightarrow> pystr \<Rightarrow> store \<times> (error + nat)" where
  "embed_watermark_st h img watermark_json =
     (let data = str_to_bin watermark_json @ eof_marker;
          (h1, arr) = alloc h (h ! img);
          (h2, flat) = alloc h1 (h1 ! arr)
      in if length data > length (h2 ! flat)
         then (h2, Inl (ValueError ''Watermark data is too large for this image.''))
         else (let h3 = fold (set_lsb_st data flat) [0..<length data] h2;
                   (h4, out) = alloc h3 (h3 ! flat)
               in (h4, Inr out)))"

subsection \<open>extract\_watermark\<close>

text \<open>\<open>s.find(sub)\<close>: the lowest index where \<open>sub\<close> occurs in \<open>s\<close>, \<open>-1\<close> if none.\<close>

fun str_find :: "'a list \<Rightarrow> 'a list \<Rightarrow> int" where
  "str_find [] sub = (if sub = [] then 0 else - 1)"
| "str_find (x # xs) sub =
     (if prefix sub (x # xs) then 0
      else (let r = str_find xs sub in if r = - 1 then - 1 else r + 1))"

text \<open>
  \<open>for i in range(limit): bits.append(str(flat[i] & 1))\<close>, then \<open>''.join(bits)\<close>.
\<close>

definition lsb_bits :: "buffer \<Rightarrow> nat \<Rightarrow> bits" where
  "lsb_bits flat limit = map (\<lambda>i. flat ! i AND 1 = 1) [0..<limit]"

text \<open>backend.py, \<open>WatermarkProcessor.extract_watermark\<close>: the scan is capped.\<close>

definition extract_watermark :: "buffer \<Rightarrow> pystr option" where
  "extract_watermark img =
     (let flat = img;
          pixel_check_limit = min (length flat) (4096 * 8 * 3);
          bits_str = lsb_bits flat pixel_check_limit;
          eof = str_find bits_str eof_marker
      in if eof = - 1 then None
         else Some (bin_to_str (take (nat eof) bits_str)))"

text \<open>watermark\_gui.py, \<open>extract_watermark\<close>: the scan covers the whole buffer.\<close>

definition gui_extract_watermark :: "buffer \<Rightarrow> pystr option" where
  "gui_extract_watermark img =
     (let flat = img;
          bits_str = lsb_bits flat (length flat);
          eof = str_find bits_str eof_marker
      in if eof = - 1 then None
         else Some (bin_to_str (take (nat eof) bits_str)))"


section \<open>Python values, services and the embed page\<close>

text \<open>
  The values that \<open>json.loads\<close> returns and that the session state holds. A float is kept
  as its IEEE 754 bit pattern.
\<close>

datatype pyval =
    PyNone
  | PyBool bool
  | PyInt int
  | PyFloat "64 word"
  | PyStr pystr
  | PyList "pyval list"
  | PyDict "(pystr \<times> pyval) list"

text \<open>Truth value testing, as in \<open>if x:\<close> and \<open>not x\<close>.\<close>

fun py_truthy :: "pyval \<Rightarrow> bool" where
  "py_truthy PyNone = False"
| "py_truthy (PyBool b) = b"
| "py_truthy (PyInt n) = (n \<noteq> 0)"
| "py_truthy (PyFloat w) = (w \<noteq> 0 \<and> w \<noteq> 0x8000000000000000)"
| "py_truthy (PyStr s) = (s \<noteq> [])"
| "py_truthy (PyList xs) = (xs \<noteq> [])"
| "py_truthy (PyDict d) = (d \<noteq> [])"

text \<open>\<open>d.get(k)\<close> on a dict: \<open>None\<close> for a missing key.\<close>

definition dict_get :: "(pystr \<times> pyval) list \<Rightarrow> pystr \<Rightarrow> pyval" where
  "dict_get d k = (case map_of d k of None \<Rightarrow> PyNone | Some v \<Rightarrow> v)"

text \<open>
  The library functions the services and the page call are parameters of the model:
  \<open>sha256_hexdigest s\<close> stands for \<open>hashlib.sha256(s.encode()).hexdigest()\<close>,
  \<open>encode_error s\<close> for the text of the \<open>UnicodeEncodeError\<close> that \<open>s.encode()\<close> raises
  when \<open>s\<close> cannot be encoded, \<open>json_dumps v\<close> for \<open>json.dumps(v)\<close>,
  \<open>json_dumps_compact v\<close> for \<open>json.dumps(v, separators=(",", ":"), ensure_ascii=False)\<close>,
  \<open>b64encode s\<close> for \<open>base64.b64encode(s.encode()).decode()\<close>, \<open>json_loads s\<close> for
  \<open>json.loads(s)\<close> (\<open>None\<close> when it raises), and \<open>open_none_message\<close> for the text of the
  exception that \<open>Image.open(None)\<close> raises.
\<close>

record libs =
  sha256_hexdigest :: "pystr \<Rightarrow> pystr"
  encode_error :: "pystr \<Rightarrow> pystr"
  json_dumps :: "pyval \<Rightarrow> pystr"
  json_dumps_compact :: "pyval \<Rightarrow> pystr"
  b64encode :: "pystr \<Rightarrow> pystr"
  json_loads :: "pystr \<Rightarrow> pyval option"
  open_none_message :: pystr

text \<open>
  \<open>s.encode()\<close> is the UTF-8 encoding; it raises \<open>UnicodeEncodeError\<close> exactly when \<open>s\<close>
  holds a surrogate code point (U+D800 to U+DFFF).
\<close>

definition utf8_encodable :: "pystr \<Rightarrow> bool" where
  "utf8_encodable s = list_all (\<lambda>c. \<not> (0xD800 \<le> c \<and> c \<le> 0xDFFF)) s"

text \<open>
  \<open>hashlib.sha256(s.encode()).hexdigest()\<close> inside a \<open>try\<close> block: the digest, or the text
  of the exception that \<open>encode\<close> raises.
\<close>

definition sha256_of :: "libs \<Rightarrow> pystr \<Rightarrow> pystr + pystr" where
  "sha256_of L s =
     (if utf8_encodable s then Inr (sha256_hexdigest L s) else Inl (encode_error L s))"

subsection \<open>WatermarkValidator\<close>

definition validate_embed_inputs ::
  "pystr \<Rightarrow> pystr \<Rightarrow> pystr \<Rightarrow> buffer option \<Rightarrow> pystr list" where
  "validate_embed_inputs owner passkey confirm_passkey uploaded_file =
     (if uploaded_file = None then [py_str ''Please upload an image first.''] else []) @
     (if owner = [] then [py_str ''Owner field is required.''] else []) @
     (if passkey = [] then [py_str ''Passkey is required for security.''] else []) @
     (if passkey \<noteq> confirm_passkey then [py_str ''Passkeys do not match.''] else [])"

definition validate_resell_inputs :: "pystr \<Rightarrow> pystr \<Rightarrow> pystr \<Rightarrow> pystr list" where
  "validate_resell_inputs new_owner new_passkey confirm_new_passkey =
     (if new_passkey = [] then [py_str ''New passkey is required.''] else []) @
     (if new_passkey \<noteq> confirm_new_passkey then [py_str ''New passkeys do not match.''] else [])"

definition validate_passkey_verification :: "pystr \<Rightarrow> pystr option" where
  "validate_passkey_verification passkey =
     (if passkey = [] then Some (py_str ''Please enter a passkey.'') else None)"

subsection \<open>WatermarkDataManager\<close>

text \<open>
  \<open>create_watermark_data\<close> and \<open>create_resell_data\<close> are called inside the \<open>try\<close> blocks
  of the services: \<open>Inl\<close> is the text of the exception raised by \<open>passkey.encode()\<close>,
  \<open>Inr\<close> the dict.
\<close>

definition create_watermark_data ::
  "libs \<Rightarrow> pystr \<Rightarrow> pystr \<Rightarrow> pystr \<Rightarrow> pystr \<Rightarrow> pystr + (pystr \<times> pyval) list" where
  "create_watermark_data L owner buyer datetime_str passkey =
     (case sha256_of L passkey of
        Inl e \<Rightarrow> Inl e
      | Inr passkey_hash \<Rightarrow>
          Inr [(py_str ''owner'', PyStr owner),
               (py_str ''buyer'', PyStr buyer),
               (py_str ''datetime'', PyStr datetime_str),
               (py_str ''passkey_hash'', PyStr passkey_hash)])"

text \<open>
  \<open>create_resell_data\<close> stamps the record with \<open>datetime.now()\<close> in the format
  \<open>"%Y-%m-%d %H:%M:%S"\<close>; the formatted time is the argument \<open>now\<close>.
\<close>

definition create_resell_data ::
  "libs \<Rightarrow> pystr \<Rightarrow> pystr \<Rightarrow> pystr \<Rightarrow> pystr \<Rightarrow> pystr + (pystr \<times> pyval) list" where
  "create_resell_data L now new_owner new_buyer new_passkey =
     (case sha256_of L new_passkey of
        Inl e \<Rightarrow> Inl e
      | Inr new_passkey_hash \<Rightarrow>
          Inr [(py_str ''owner'', PyStr new_owner),
               (py_str ''buyer'', PyStr new_buyer),
               (py_str ''datetime'', PyStr now),
               (py_str ''passkey_hash'', PyStr new_passkey_hash)])"

text \<open>
  \<open>verify_passkey\<close> is called outside any \<open>try\<close> block; a passkey that cannot be encoded
  makes the page script raise there, which is outside the model.
\<close>

definition verify_passkey :: "libs \<Rightarrow> pystr \<Rightarrow> pyval \<Rightarrow> bool" where
  "verify_passkey L passkey stored_hash =
     (let provided_hash = sha256_hexdigest L passkey in PyStr provided_hash = stored_hash)"

subsection \<open>metadata\_to\_data\_uri (blockchain.py)\<close>

text \<open>\<open>Inl\<close> is the text of the exception raised by \<open>json_str.encode()\<close>.\<close>

definition metadata_to_data_uri :: "libs \<Rightarrow> pyval \<Rightarrow> pystr + pystr" where
  "metadata_to_data_uri L metadata =
     (let json_str = json_dumps_compact L metadata
      in if utf8_encodable json_str
         then Inr (py_str ''data:application/json;base64,'' @ b64encode L json_str)
         else Inl (encode_error L json_str))"

subsection \<open>WatermarkService\<close>

text \<open>
  The optional ledger client, \<open>self.blockchain.mint_nft(recipient, token_uri,
  watermark_hash)\<close> with the client's own address as recipient: \<open>Inr\<close> is the mint
  response, \<open>Inl\<close> the text of the exception it raises.
\<close>

type_synonym ledger = "pystr \<Rightarrow> pystr \<Rightarrow> pystr + pyval"

text \<open>
  The \<open>try\<close> block of \<open>WatermarkService.embed_watermark\<close>, after the image is loaded:
  \<open>Inl\<close> is the text of the exception that leaves the block, \<open>Inr\<close> the pair that is
  returned. The source embeds twice into the same loaded image and keeps the second,
  equal, result. The record always has the key \<open>'owner'\<close>, so
  \<open>data.get('owner', 'unknown')\<close> is the owner.
\<close>

definition embed_watermark_steps ::
  "libs \<Rightarrow> ledger option \<Rightarrow> buffer \<Rightarrow> pystr \<Rightarrow> pystr \<Rightarrow> pystr \<Rightarrow> pystr
     \<Rightarrow> pystr + (buffer \<times> pyval)" where
  "embed_watermark_steps L blockchain img owner buyer passkey datetime_str =
     (case create_watermark_data L owner buyer datetime_str passkey of
        Inl e \<Rightarrow> Inl e
      | Inr data \<Rightarrow>
          (case embed_watermark img (json_dumps L (PyDict data)) of
             Inl (ValueError e) \<Rightarrow> Inl (py_str e)
           | Inr watermarked_image \<Rightarrow>
               (let watermark_json_str = json_dumps_compact L (PyDict data)
                in case sha256_of L watermark_json_str of
                     Inl e \<Rightarrow> Inl e
                   | Inr watermark_hash \<Rightarrow>
                       (let metadata = PyDict
                              [(py_str ''name'', PyStr (py_str ''WatermarkedArt - '' @ owner)),
                               (py_str ''description'',
                                PyStr (py_str ''Invisible watermark record for digital artwork'')),
                               (py_str ''owner'', dict_get data (py_str ''owner'')),
                               (py_str ''buyer'', dict_get data (py_str ''buyer'')),
                               (py_str ''datetime'', dict_get data (py_str ''datetime'')),
                               (py_str ''watermark_hash'', PyStr watermark_hash)]
                        in case metadata_to_data_uri L metadata of
                             Inl e \<Rightarrow> Inl e
                           | Inr token_uri \<Rightarrow>
                               Inr (watermarked_image,
                                    case blockchain of
                                      None \<Rightarrow> PyNone
                                    | Some mint_nft \<Rightarrow>
                                        (case mint_nft token_uri watermark_hash of
                                           Inl e \<Rightarrow> PyDict [(py_str ''error'', PyStr e)]
                                         | Inr mint_resp \<Rightarrow> mint_resp))))))"

text \<open>
  \<open>WatermarkService.embed_watermark\<close>. The uploaded file is given by the pixel buffer it
  decodes to (\<open>None\<close> when nothing was uploaded); decoding is outside the model. The result
  is the pair the method returns; a list of messages is a \<open>PyList\<close> of strings. With no
  upload the validation errors are not empty, so the method returns them.
\<close>

definition service_embed_watermark ::
  "libs \<Rightarrow> ledger option \<Rightarrow> buffer option \<Rightarrow> pystr \<Rightarrow> pystr \<Rightarrow> pystr \<Rightarrow> pystr \<Rightarrow> pystr
     \<Rightarrow> buffer option \<times> pyval" where
  "service_embed_watermark L blockchain uploaded_file owner buyer passkey confirm_passkey datetime_str =
     (let errors = validate_embed_inputs owner passkey confirm_passkey uploaded_file
      in case uploaded_file of
           None \<Rightarrow> (None, PyList (map PyStr errors))
         | Some img \<Rightarrow>
             if errors \<noteq> [] then (None, PyList (map PyStr errors))
             else
               (case embed_watermark_steps L blockchain img owner buyer passkey datetime_str of
                  Inl e \<Rightarrow> (None, PyList [PyStr (py_str ''Failed to embed watermark: '' @ e)])
                | Inr (watermarked_image, blockchain_result) \<Rightarrow>
                    (Some watermarked_image, blockchain_result)))"

text \<open>\<open>WatermarkService.verify_resell_passkey\<close>, returning the pair \<open>(ok, message)\<close>.\<close>

definition verify_resell_passkey ::
  "libs \<Rightarrow> pystr \<Rightarrow> (pystr \<times> pyval) list \<Rightarrow> bool \<times> pystr option" where
  "verify_resell_passkey L passkey existing_watermark =
     (case validate_passkey_verification passkey of
        Some error \<Rightarrow> (False, Some error)
      | None \<Rightarrow>
          if \<not> py_truthy (dict_get existing_watermark (py_str ''passkey_hash''))
          then (True, None)
          else if verify_passkey L passkey (dict_get existing_watermark (py_str ''passkey_hash''))
               then (True, None)
               else (False, Some (py_str ''Invalid passkey. Cannot resell this image.'')))"

text \<open>
  \<open>WatermarkService.resell_watermark\<close>. With no upload, \<open>load_image\<close> raises inside the
  \<open>try\<close> block and the message of that exception is returned.
\<close>

definition service_resell_watermark ::
  "libs \<Rightarrow> pystr \<Rightarrow> buffer option \<Rightarrow> pystr \<Rightarrow> pystr \<Rightarrow> pystr \<Rightarrow> pystr
     \<Rightarrow> buffer option \<times> pyval" where
  "service_resell_watermark L now uploaded_file new_owner new_buyer new_passkey confirm_new_passkey =
     (let errors = validate_resell_inputs new_owner new_passkey confirm_new_passkey
      in if errors \<noteq> [] then (None, PyList (map PyStr errors))
         else case uploaded_file of
                None \<Rightarrow>
                  (None, PyList [PyStr (py_str ''Failed to update watermark: '' @
                                        open_none_message L)])
              | Some img \<Rightarrow>
                  (case create_resell_data L now new_owner new_buyer new_passkey of
                     Inl e \<Rightarrow>
                       (None, PyList [PyStr (py_str ''Failed to update watermark: '' @ e)])
                   | Inr new_data \<Rightarrow>
                       (case embed_watermark img (json_dumps L (PyDict new_data)) of
                          Inl (ValueError e) \<Rightarrow>
                            (None, PyList [PyStr (py_str ''Failed to update watermark: '' @
                                                  py_str e)])
                        | Inr updated_image \<Rightarrow> (Some updated_image, PyNone))))"

subsection \<open>EmbedWatermarkPage (frontend.py)\<close>

text \<open>
  The two attributes of \<open>st.session_state\<close> that the page reads and writes. An attribute
  may never have been set (\<open>hasattr\<close> is false). The page stores in \<open>existing_watermark\<close>
  either \<open>None\<close> or the dict parsed from the extracted text, and in \<open>resell_verified\<close> a
  boolean.
\<close>

datatype 'a attr = Unset | Attr 'a

record session_state =
  existing_watermark :: "(pystr \<times> pyval) list option attr"
  resell_verified :: "bool attr"

text \<open>
  \<open>hasattr(st.session_state, 'existing_watermark') and st.session_state.existing_watermark\<close>
\<close>

definition has_existing_watermark :: "session_state \<Rightarrow> bool" where
  "has_existing_watermark st =
     (case existing_watermark st of Attr (Some d) \<Rightarrow> d \<noteq> [] | _ \<Rightarrow> False)"

text \<open>
  \<open>hasattr(st.session_state, 'resell_verified') and st.session_state.resell_verified\<close>
\<close>

definition is_resell_verified :: "session_state \<Rightarrow> bool" where
  "is_resell_verified st = (case resell_verified st of Attr b \<Rightarrow> b | Unset \<Rightarrow> False)"

text \<open>
  What one run of the page script receives: the values of the widgets, which buttons were
  clicked, and the formatted current time. The upload is given by the pixel buffer it
  decodes to (\<open>None\<close> when nothing is uploaded); decoding is outside the model.
\<close>

record page_input =
  in_owner :: pystr
  in_buyer :: pystr
  in_passkey :: pystr
  in_confirm_passkey :: pystr
  in_datetime_str :: pystr
  in_uploaded_file :: "buffer option"
  in_resell_passkey :: pystr
  verify_clicked :: bool
  in_new_owner :: pystr
  in_new_passkey :: pystr
  in_new_buyer :: pystr
  in_confirm_new_passkey :: pystr
  update_clicked :: bool
  embed_clicked :: bool
  in_now :: pystr

text \<open>
  \<open>_render_preview_section\<close>: what it stores in the session state. The extracted text is
  kept only when it is not empty and \<open>json.loads\<close> returns a dict; any exception in the
  inner \<open>try\<close> block (a parse error, or \<open>.get\<close> on a value that is not a dict) stores
  \<open>None\<close>.
\<close>

definition render_preview_section :: "libs \<Rightarrow> page_input \<Rightarrow> session_state \<Rightarrow> session_state" where
  "render_preview_section L inp st =
     (case in_uploaded_file inp of
        None \<Rightarrow> st
      | Some img \<Rightarrow>
          (case extract_watermark img of
             None \<Rightarrow> st\<lparr>existing_watermark := Attr None\<rparr>
           | Some existing \<Rightarrow>
               if existing = [] then st\<lparr>existing_watermark := Attr None\<rparr>
               else (case json_loads L existing of
                       Some (PyDict wm_data) \<Rightarrow> st\<lparr>existing_watermark := Attr (Some wm_data)\<rparr>
                     | _ \<Rightarrow> st\<lparr>existing_watermark := Attr None\<rparr>)))"

text \<open>
  \<open>_render_resell_form\<close>: a click on "Update Watermark" calls the resell service; when it
  returns no errors the two attributes are reset. The second component is the result of
  the service call, if one was made.
\<close>

definition render_resell_form ::
  "libs \<Rightarrow> page_input \<Rightarrow> session_state \<Rightarrow> session_state \<times> (buffer option \<times> pyval) option" where
  "render_resell_form L inp st =
     (if update_clicked inp
      then (let (updated_image, errors) =
                  service_resell_watermark L (in_now inp) (in_uploaded_file inp)
                    (in_new_owner inp) (in_new_buyer inp) (in_new_passkey inp)
                    (in_confirm_new_passkey inp)
            in if py_truthy errors then (st, Some (updated_image, errors))
               else (st\<lparr>existing_watermark := Attr None, resell_verified := Attr False\<rparr>,
                     Some (updated_image, errors)))
      else (st, None))"

text \<open>\<open>_handle_resell_functionality\<close>\<close>

definition handle_resell_functionality ::
  "libs \<Rightarrow> page_input \<Rightarrow> session_state \<Rightarrow> session_state \<times> (buffer option \<times> pyval) option" where
  "handle_resell_functionality L inp st =
     (case existing_watermark st of
        Attr (Some existing_wm) \<Rightarrow>
          if existing_wm = [] then (st, None)
          else
            (let st1 =
               (if py_truthy (dict_get existing_wm (py_str ''passkey_hash''))
                then (if verify_clicked inp
                      then (let (is_valid, error) =
                                  verify_resell_passkey L (in_resell_passkey inp) existing_wm
                            in st\<lparr>resell_verified := Attr is_valid\<rparr>)
                      else st)
                else st\<lparr>resell_verified := Attr True\<rparr>)
             in if is_resell_verified st1 then render_resell_form L inp st1 else (st1, None))
      | _ \<Rightarrow> (st, None))"

text \<open>The text of the warning; it starts with U+26A0 U+FE0F.\<close>

definition already_watermarked_warning :: pystr where
  "already_watermarked_warning =
     [0x26A0, 0xFE0F] @
     py_str '' Cannot embed new watermark. This image already has a watermark. Use the 'Resell/Update Watermark' section above to update it.''"

text \<open>
  \<open>_handle_embed_button\<close>, up to the call of the service: either the warning is shown and
  the button is not rendered, or the button is rendered and, when clicked, the service is
  called with the form fields. How the result is displayed afterwards is left out.
\<close>

datatype embed_button_outcome =
    Refused pystr
  | NotClicked
  | Called "buffer option \<times> pyval"

definition handle_embed_button ::
  "libs \<Rightarrow> ledger option \<Rightarrow> page_input \<Rightarrow> session_state \<Rightarrow> embed_button_outcome" where
  "handle_embed_button L blockchain inp st =
     (let show_embed_button = \<not> (has_existing_watermark st \<and> \<not> is_resell_verified st)
      in if \<not> show_embed_button then Refused already_watermarked_warning
         else if embed_clicked inp
              then Called (service_embed_watermark L blockchain (in_uploaded_file inp)
                             (in_owner inp) (in_buyer inp) (in_passkey inp)
                             (in_confirm_passkey inp) (in_datetime_str inp))
              else NotClicked)"

text \<open>
  \<open>EmbedWatermarkPage.render\<close>: the preview, the resell section and the embed button, in
  this order, on the same session state. The result is the final session state, the
  result of the resell service if it was called, and the outcome of the embed button.
\<close>

definition render ::
  "libs \<Rightarrow> ledger option \<Rightarrow> page_input \<Rightarrow> session_state
     \<Rightarrow> session_state \<times> (buffer option \<times> pyval) option \<times> embed_button_outcome" where
  "render L blockchain inp st =
     (let st1 = render_preview_section L inp st;
          (st2, resold) = handle_resell_functionality L inp st1
      in (st2, resold, handle_embed_button L blockchain inp st2))"

subsection \<open>Concrete records\<close>

text \<open>
  The output of \<open>json.dumps\<close> for two records, with the SHA-256 digests of the passkeys
  \<open>"pk123"\<close> and \<open>"x"\<close>, and the first record as \<open>json.loads\<close> returns it.
\<close>

definition alice_record :: pystr where
  "alice_record = py_str ''{\"owner\": \"Alice\", \"buyer\": \"\", \"datetime\": \"2024-01-01 00:00:00\", \"passkey_hash\": \"ed7b75c48abbe159798a83021142cb3a75c4c66f1b450a1dedba3f0610b4df71\"}''"

definition alice_dict :: "(pystr \<times> pyval) list" where
  "alice_dict =
     [(py_str ''owner'', PyStr (py_str ''Alice'')),
      (py_str ''buyer'', PyStr []),
      (py_str ''datetime'', PyStr (py_str ''2024-01-01 00:00:00'')),
      (py_str ''passkey_hash'',
       PyStr (py_str ''ed7b75c48abbe159798a83021142cb3a75c4c66f1b450a1dedba3f0610b4df71''))]"

definition mallory_record :: pystr where
  "mallory_record = py_str ''{\"owner\": \"Mallory\", \"buyer\": \"\", \"datetime\": \"2024-06-01 00:00:00\", \"passkey_hash\": \"2d711642b726b04401627ca9fbac32f5c8530fb1903cc4db02258717921a4881\"}''"

text \<open>
  A record as watermark\_gui.py writes it, without a \<open>passkey_hash\<close> key: the text and
  the dict.
\<close>

definition unprotected_text :: pystr where
  "unprotected_text = py_str ''{\"owner\": \"Alice\", \"buyer\": \"\", \"datetime\": \"2024-01-01 00:00:00\"}''"

definition unprotected_record :: "(pystr \<times> pyval) list" where
  "unprotected_record =
     [(py_str ''owner'', PyStr (py_str ''Alice'')),
      (py_str ''buyer'', PyStr []),
      (py_str ''datetime'', PyStr (py_str ''2024-01-01 00:00:00''))]"

text \<open>
  Mallory's record as \<open>create_watermark_data\<close> builds it, its compact serialization, and
  the compact serialization of the token metadata built from it (with the SHA-256 digest
  of the compact record).
\<close>

definition mallory_dict :: "(pystr \<times> pyval) list" where
  "mallory_dict =
     [(py_str ''owner'', PyStr (py_str ''Mallory'')),
      (py_str ''buyer'', PyStr []),
      (py_str ''datetime'', PyStr (py_str ''2024-06-01 00:00:00'')),
      (py_str ''passkey_hash'',
       PyStr (py_str ''2d711642b726b04401627ca9fbac32f5c8530fb1903cc4db02258717921a4881''))]"

definition mallory_compact :: pystr where
  "mallory_compact = py_str ''{\"owner\":\"Mallory\",\"buyer\":\"\",\"datetime\":\"2024-06-01 00:00:00\",\"passkey_hash\":\"2d711642b726b04401627ca9fbac32f5c8530fb1903cc4db02258717921a4881\"}''"

definition mallory_metadata_compact :: pystr where
  "mallory_metadata_compact = py_str ''{\"name\":\"WatermarkedArt - Mallory\",\"description\":\"Invisible watermark record for digital artwork\",\"owner\":\"Mallory\",\"buyer\":\"\",\"datetime\":\"2024-06-01 00:00:00\",\"watermark_hash\":\"45c94222f689ea31f6f7d9aae5bf166dcb97da265a67042240a0b39cb3b61601\"}''"

text \<open>
  The library functions at the arguments of the scenario: the digests of \<open>"x"\<close> and of the
  compact record, the serializations of Mallory's record and of the metadata, the base64
  text of the metadata, and the parses of the two embedded texts.
\<close>

definition mallory_libs :: libs where
  "mallory_libs =
     \<lparr>sha256_hexdigest =
        (\<lambda>s. if s = py_str ''x''
             then py_str ''2d711642b726b04401627ca9fbac32f5c8530fb1903cc4db02258717921a4881''
             else py_str ''45c94222f689ea31f6f7d9aae5bf166dcb97da265a67042240a0b39cb3b61601''),
      encode_error = (\<lambda>s. []),
      json_dumps = (\<lambda>v. mallory_record),
      json_dumps_compact =
        (\<lambda>v. if v = PyDict mallory_dict then mallory_compact else mallory_metadata_compact),
      b64encode =
        (\<lambda>s. py_str ''eyJuYW1lIjoiV2F0ZXJtYXJrZWRBcnQgLSBNYWxsb3J5IiwiZGVzY3JpcHRpb24iOiJJbnZpc2libGUgd2F0ZXJtYXJrIHJlY29yZCBmb3IgZGlnaXRhbCBhcnR3b3JrIiwib3duZXIiOiJNYWxsb3J5IiwiYnV5ZXIiOiIiLCJkYXRldGltZSI6IjIwMjQtMDYtMDEgMDA6MDA6MDAiLCJ3YXRlcm1hcmtfaGFzaCI6IjQ1Yzk0MjIyZjY4OWVhMzFmNmY3ZDlhYWU1YmYxNjZkY2I5N2RhMjY1YTY3MDQyMjQwYTBiMzljYjNiNjE2MDEifQ==''),
      json_loads =
        (\<lambda>s. if s = alice_record then Some (PyDict alice_dict)
             else if s = unprotected_text then Some (PyDict unprotected_record)
             else None),
      open_none_message = []\<rparr>"

definition alice_image :: buffer where
  "alice_image = write_bits (str_to_bin alice_record @ eof_marker) (replicate 30000 0)"

definition unprotected_image :: buffer where
  "unprotected_image = write_bits (str_to_bin unprotected_text @ eof_marker) (replicate 30000 0)"

text \<open>The form as Mallory fills it in, with a click on the embed button only.\<close>

definition mallory_input :: "buffer \<Rightarrow> page_input" where
  "mallory_input img =
     \<lparr>in_owner = py_str ''Mallory'', in_buyer = [], in_passkey = py_str ''x'',
      in_confirm_passkey = py_str ''x'', in_datetime_str = py_str ''2024-06-01 00:00:00'',
      in_uploaded_file = Some img, in_resell_passkey = [], verify_clicked = False,
      in_new_owner = [], in_new_passkey = [], in_new_buyer = [],
      in_confirm_new_passkey = [], update_clicked = False, embed_clicked = True,
      in_now = py_str ''2024-06-01 00:00:00''\<rparr>"

text \<open>A run of the page with an uploaded image, an empty form and no click.\<close>

definition browse_input :: "buffer \<Rightarrow> page_input" where
  "browse_input img =
     \<lparr>in_owner = [], in_buyer = [], in_passkey = [], in_confirm_passkey = [],
      in_datetime_str = py_str ''2024-06-01 00:00:00'',
      in_uploaded_file = Some img, in_resell_passkey = [], verify_clicked = False,
      in_new_owner = [], in_new_passkey = [], in_new_buyer = [],
      in_confirm_new_passkey = [], update_clicked = False, embed_clicked = False,
      in_now = py_str ''2024-06-01 00:00:00''\<rparr>"

text \<open>The session state of a new session: no attribute is set.\<close>

definition fresh_session :: session_state where
  "fresh_session = \<lparr>existing_watermark = Unset, resell_verified = Unset\<rparr>"

section \<open>Notions used to state the properties\<close>

text \<open>The slice \<open>s[j:j+len(sub)]\<close> is \<open>sub\<close>: an occurrence of \<open>sub\<close> in \<open>s\<close> at offset \<open>j\<close>.\<close>

definition occurs_at :: "'a list \<Rightarrow> 'a list \<Rightarrow> nat \<Rightarrow> bool" where
  "occurs_at sub s j = (j + length sub \<le> length s \<and> take (length sub) (drop j s) = sub)"

definition first_occurrence :: "'a list \<Rightarrow> 'a list \<Rightarrow> nat \<Rightarrow> bool" where
  "first_occurrence sub s i = (occurs_at sub s i \<and> (\<forall>j<i. \<not> occurs_at sub s j))"

text \<open>The unsigned value of an 8-bit group, most significant bit first.\<close>

definition group_value :: "bits \<Rightarrow> nat" where
  "group_value g = (\<Sum>i<8. if g ! i then 2 ^ (7 - i) else 0)"

text \<open>The least-significant bits of all samples of a buffer, in order.\<close>

definition lsb_seq :: "buffer \<Rightarrow> bits" where
  "lsb_seq flat = map (\<lambda>x. x AND 1 = 1) flat"

definition is_latin1 :: "pystr \<Rightarrow> bool" where
  "is_latin1 s = list_all (\<lambda>c. c < 256) s"

section \<open>Binary digits\<close>

lemma length_bin_digits_pos: "0 < length (bin_digits n)"
  by (induction n rule: bin_digits.induct) (subst bin_digits.simps, simp)

lemma length_bin_digits_le: "0 < k \<Longrightarrow> n < 2 ^ k \<Longrightarrow> length (bin_digits n) \<le> k"
proof (induction n arbitrary: k rule: bin_digits.induct)
  case (1 n)
  show ?case
  proof (cases "n < 2")
    case True
    with "1.prems" show ?thesis by (subst bin_digits.simps) simp
  next
    case False
    from "1.prems" obtain j where k: "k = Suc j"
      by (cases k) auto
    have j: "0 < j"
    proof (rule ccontr)
      assume "\<not> 0 < j"
      with k "1.prems" False show False by simp
    qed
    from "1.prems" k have "n div 2 < 2 ^ j" by simp
    with "1.IH" False j have "length (bin_digits (n div 2)) \<le> j" by simp
    with False k show ?thesis by (subst bin_digits.simps) simp
  qed
qed

lemma length_bin_digits_gt: "2 ^ k \<le> n \<Longrightarrow> k < length (bin_digits n)"
proof (induction n arbitrary: k rule: bin_digits.induct)
  case (1 n)
  show ?case
  proof (cases "n < 2")
    case True
    have "k = 0"
    proof (cases k)
      case (Suc j)
      have "(1::nat) \<le> 2 ^ j" by simp
      with Suc "1.prems" True show ?thesis by simp
    qed simp
    then show ?thesis using length_bin_digits_pos [of n] by simp
  next
    case False
    show ?thesis
    proof (cases k)
      case 0
      then show ?thesis using length_bin_digits_pos [of n] by simp
    next
      case (Suc j)
      with "1.prems" have "2 ^ j \<le> n div 2" by simp
      with "1.IH" False have "j < length (bin_digits (n div 2))" by simp
      with False Suc show ?thesis by (subst bin_digits.simps) simp
    qed
  qed
qed

lemma int_base2_snoc: "int_base2 (c @ [b]) = 2 * int_base2 c + (if b then 1 else 0)"
  by (simp add: int_base2_def)

lemma int_base2_bin_digits: "int_base2 (bin_digits n) = n"
proof (induction n rule: bin_digits.induct)
  case (1 n)
  show ?case
  proof (cases "n < 2")
    case True
    then have "n = 0 \<or> n = 1" by auto
    then show ?thesis by (subst bin_digits.simps) (auto simp: int_base2_def)
  next
    case False
    with "1.IH" have "int_base2 (bin_digits (n div 2)) = n div 2" by simp
    with False show ?thesis
      by (subst bin_digits.simps) (simp add: int_base2_snoc)
  qed
qed

lemma int_base2_zeros: "int_base2 (replicate k False @ c) = int_base2 c"
proof -
  have "foldl (\<lambda>a b. 2 * a + (if b then 1 else 0)) (0::nat) (replicate k False) = 0"
    by (induction k) simp_all
  then show ?thesis by (simp add: int_base2_def)
qed

lemma length_format_08b: "n < 256 \<Longrightarrow> length (format_08b n) = 8"
  using length_bin_digits_le [of 8 n] by (simp add: format_08b_def Let_def)

lemma length_format_08b_ge: "8 \<le> length (format_08b n)"
  by (simp add: format_08b_def Let_def)

lemma length_format_08b_wide: "256 \<le> n \<Longrightarrow> 8 < length (format_08b n)"
  using length_bin_digits_gt [of 8 n] by (simp add: format_08b_def Let_def)

lemma int_base2_format_08b: "int_base2 (format_08b n) = n"
  by (simp add: format_08b_def Let_def int_base2_zeros int_base2_bin_digits)

lemma format_08b_ascii_hd: "n < 128 \<Longrightarrow> format_08b n ! 0 = False"
  using length_bin_digits_le [of 7 n]
  by (simp add: format_08b_def Let_def nth_append)

section \<open>bin\_to\_str as a recursion over 8-bit groups\<close>

lemma range_step8_0: "range_step8 0 = []"
  by (simp add: range_step8_def)

lemma step8_count: "0 < n \<Longrightarrow> (n + 7) div 8 = Suc ((n - 8 + 7) div 8)"
proof (cases "n < 8")
  case True
  assume "0 < n"
  then obtain m where m: "n = Suc m" by (cases n) auto
  with True have "m < 8" by simp
  then have "(8 + m) div 8 = 1" by simp
  moreover have "n + 7 = 8 + m" using m by simp
  ultimately show ?thesis using True by simp
next
  case False
  then obtain m where m: "n = m + 8" by (metis add.commute le_add_diff_inverse not_less)
  then show ?thesis by simp
qed

lemma range_step8_pos: "0 < n \<Longrightarrow> range_step8 n = 0 # map (\<lambda>i. i + 8) (range_step8 (n - 8))"
proof -
  assume n: "0 < n"
  then have "(n + 7) div 8 = Suc ((n - 8 + 7) div 8)" by (rule step8_count)
  then show ?thesis
    by (simp add: range_step8_def upt_conv_Cons map_Suc_upt [symmetric] o_def del: upt_Suc)
qed

lemma bin_to_str_short: "length b < 8 \<Longrightarrow> bin_to_str b = []"
proof (cases "b = []")
  case True
  then show ?thesis by (simp add: bin_to_str_def range_step8_0)
next
  case False
  assume "length b < 8"
  with False show ?thesis
    by (simp add: bin_to_str_def range_step8_pos range_step8_0)
qed

lemma bin_to_str_step:
  assumes "8 \<le> length b"
  shows "bin_to_str b = int_base2 (take 8 b) # bin_to_str (drop 8 b)"
proof -
  from assms have "0 < length b" by (cases b) simp_all
  then have r: "range_step8 (length b) = 0 # map (\<lambda>i. i + 8) (range_step8 (length b - 8))"
    by (rule range_step8_pos)
  from assms have "b \<noteq> []" by (cases b) simp_all
  with assms show ?thesis
    by (simp add: bin_to_str_def r o_def)
qed

lemma bin_to_str_groups:
  "bin_to_str b = map (\<lambda>k. int_base2 (take 8 (drop (8 * k) b))) [0..<length b div 8]"
proof (induction "length b" arbitrary: b rule: less_induct)
  case less
  show ?case
  proof (cases "length b < 8")
    case True
    then show ?thesis by (simp add: bin_to_str_short)
  next
    case False
    then have ge: "8 \<le> length b" by simp
    then have "length (drop 8 b) < length b" by simp
    then have ih: "bin_to_str (drop 8 b) =
        map (\<lambda>k. int_base2 (take 8 (drop (8 * k) (drop 8 b)))) [0..<length (drop 8 b) div 8]"
      by (rule less)
    from ge have n: "length b div 8 = Suc (length (drop 8 b) div 8)" by simp
    have d: "\<And>k. drop (8 * k) (drop 8 b) = drop (8 * Suc k) b"
      by (simp add: add.commute)
    show ?thesis
      by (simp add: bin_to_str_step [OF ge] ih n d upt_conv_Cons map_Suc_upt [symmetric] o_def
          add.commute del: upt_Suc)
  qed
qed

lemma int_base2_group_value: "length g = 8 \<Longrightarrow> int_base2 g = group_value g"
proof -
  assume "length g = 8"
  then obtain a b c d e f h i where "g = [a, b, c, d, e, f, h, i]"
    by (auto simp: length_Suc_conv eval_nat_numeral)
  then show ?thesis
    by (simp add: int_base2_def group_value_def eval_nat_numeral)
qed

section \<open>str\_to\_bin\<close>

lemma str_to_bin_Cons: "str_to_bin (c # p) = format_08b c @ str_to_bin p"
  by (simp add: str_to_bin_def)

lemma length_str_to_bin: "list_all (\<lambda>c. c < 256) p \<Longrightarrow> length (str_to_bin p) = 8 * length p"
  by (induction p) (simp_all add: str_to_bin_def length_format_08b)

lemma length_str_to_bin_ge: "8 * length p \<le> length (str_to_bin p)"
proof (induction p)
  case Nil
  then show ?case by (simp add: str_to_bin_def)
next
  case (Cons c p)
  with length_format_08b_ge [of c] show ?case by (simp add: str_to_bin_Cons)
qed

lemma bin_to_str_str_to_bin: "list_all (\<lambda>c. c < 256) p \<Longrightarrow> bin_to_str (str_to_bin p) = p"
proof (induction p)
  case Nil
  then show ?case by (simp add: str_to_bin_def bin_to_str_short)
next
  case (Cons c p)
  then have c: "length (format_08b c) = 8" by (simp add: length_format_08b)
  then have "8 \<le> length (str_to_bin (c # p))" by (simp add: str_to_bin_Cons)
  from bin_to_str_step [OF this] c Cons show ?case
    by (simp add: str_to_bin_Cons int_base2_format_08b)
qed

lemma is_ascii_latin1: "is_ascii p \<Longrightarrow> list_all (\<lambda>c. c < 256) p"
  by (induction p) (simp_all add: is_ascii_def)

lemma str_to_bin_byte_start:
  "is_ascii p \<Longrightarrow> k < length p \<Longrightarrow> str_to_bin p ! (8 * k) = False"
proof (induction p arbitrary: k)
  case Nil
  then show ?case by simp
next
  case (Cons c p)
  from Cons.prems have c: "c < 128" and p: "is_ascii p" by (simp_all add: is_ascii_def)
  then have len: "length (format_08b c) = 8" by (simp add: length_format_08b)
  show ?case
  proof (cases k)
    case 0
    with c len show ?thesis
      by (simp add: str_to_bin_Cons nth_append format_08b_ascii_hd)
  next
    case (Suc j)
    with Cons.prems have "j < length p" by simp
    with Cons.IH p have "str_to_bin p ! (8 * j) = False" by simp
    with Suc len show ?thesis by (simp add: str_to_bin_Cons nth_append)
  qed
qed

section \<open>The embedding loop\<close>

lemma mask_fe: "(0xFE :: sample) = NOT 1"
  by simp

lemma lsb_of_set: "((((x::sample) AND 0xFE) OR (if b then 1 else 0)) AND 1 = 1) = b"
proof (cases b)
  case True
  have "(x AND NOT 1 OR 1) AND 1 = 1"
    by (rule bit_word_eqI) (auto simp add: bit_simps)
  with True show ?thesis by (simp add: mask_fe)
next
  case False
  have "(x AND NOT 1) AND 1 = 0"
    by (rule bit_word_eqI) (auto simp add: bit_simps)
  with False show ?thesis by (simp add: mask_fe)
qed

lemma high_bits_of_set: "(((x::sample) AND 0xFE) OR (if b then 1 else 0)) AND 0xFE = x AND 0xFE"
proof -
  have "(x AND NOT 1 OR 1) AND NOT 1 = x AND NOT 1"
    by (rule bit_word_eqI) (auto simp add: bit_simps)
  then show ?thesis by (cases b) (simp_all add: mask_fe)
qed

lemma nth_set_lsb:
  "j < length flat \<Longrightarrow>
   set_lsb data n flat ! j =
     (if j = n then (flat ! n AND 0xFE) OR (if data ! n then 1 else 0) else flat ! j)"
  by (simp add: set_lsb_def)

lemma length_set_lsb: "length (set_lsb data i flat) = length flat"
  by (simp add: set_lsb_def)

lemma length_fold_set_lsb: "length (fold (set_lsb data) is flat) = length flat"
  by (induction "is" arbitrary: flat) (simp_all add: length_set_lsb)

lemma length_write_bits: "length (write_bits data flat) = length flat"
  by (simp add: write_bits_def length_fold_set_lsb)

lemma nth_fold_set_lsb:
  "j < length flat \<Longrightarrow>
   fold (set_lsb data) [0..<n] flat ! j =
     (if j < n then (flat ! j AND 0xFE) OR (if data ! j then 1 else 0) else flat ! j)"
proof (induction n)
  case 0
  then show ?case by simp
next
  case (Suc n)
  let ?F = "fold (set_lsb data) [0..<n] flat"
  have len: "length ?F = length flat" by (rule length_fold_set_lsb)
  have step: "fold (set_lsb data) [0..<Suc n] flat = set_lsb data n ?F" by simp
  from Suc.prems len have "set_lsb data n ?F ! j =
      (if j = n then (?F ! n AND 0xFE) OR (if data ! n then 1 else 0) else ?F ! j)"
    by (simp add: nth_set_lsb)
  moreover from Suc have "?F ! j =
      (if j < n then (flat ! j AND 0xFE) OR (if data ! j then 1 else 0) else flat ! j)"
    by simp
  ultimately show ?case
    unfolding step by (cases "j = n") auto
qed

lemma nth_write_bits:
  "j < length flat \<Longrightarrow>
   write_bits data flat ! j =
     (if j < length data then (flat ! j AND 0xFE) OR (if data ! j then 1 else 0) else flat ! j)"
  by (simp add: write_bits_def nth_fold_set_lsb)

lemma lsb_bits_take: "n \<le> length flat \<Longrightarrow> lsb_bits flat n = take n (lsb_seq flat)"
  by (rule nth_equalityI) (simp_all add: lsb_bits_def lsb_seq_def)

lemma lsb_seq_write_bits:
  assumes "length data \<le> length flat"
  shows "lsb_seq (write_bits data flat) = data @ drop (length data) (lsb_seq flat)"
proof (rule nth_equalityI)
  from assms show "length (lsb_seq (write_bits data flat)) = length (data @ drop (length data) (lsb_seq flat))"
    by (simp add: lsb_seq_def length_write_bits)
next
  fix i assume "i < length (lsb_seq (write_bits data flat))"
  then have i: "i < length flat" by (simp add: lsb_seq_def length_write_bits)
  show "lsb_seq (write_bits data flat) ! i = (data @ drop (length data) (lsb_seq flat)) ! i"
  proof (cases "i < length data")
    case True
    with i show ?thesis
      by (simp add: lsb_seq_def length_write_bits nth_write_bits nth_append lsb_of_set)
  next
    case False
    with i assms show ?thesis
      by (simp add: lsb_seq_def length_write_bits nth_write_bits nth_append)
  qed
qed

section \<open>find\<close>

lemma occurs_at_prefix: "occurs_at sub s j \<longleftrightarrow> j \<le> length s \<and> prefix sub (drop j s)"
proof
  assume "occurs_at sub s j"
  then show "j \<le> length s \<and> prefix sub (drop j s)"
    by (auto simp: occurs_at_def prefix_def) (metis append_take_drop_id)
next
  assume a: "j \<le> length s \<and> prefix sub (drop j s)"
  then obtain r where r: "drop j s = sub @ r" by (auto simp: prefix_def)
  then have "length (drop j s) = length sub + length r" by (simp only: length_append)
  then have "length s - j = length sub + length r" by (simp only: length_drop)
  with a have "j + length sub \<le> length s" by linarith
  with r show "occurs_at sub s j" by (simp add: occurs_at_def)
qed

lemma occurs_at_0: "occurs_at sub s 0 \<longleftrightarrow> prefix sub s"
  by (simp add: occurs_at_prefix)

lemma occurs_at_Suc: "occurs_at sub (x # xs) (Suc j) \<longleftrightarrow> occurs_at sub xs j"
  by (simp add: occurs_at_def)

lemma str_find_range: "str_find s sub = - 1 \<or> (0 \<le> str_find s sub \<and> str_find s sub \<le> int (length s))"
  by (induction s) (auto simp: Let_def)

lemma str_find_none: "str_find s sub = - 1 \<longleftrightarrow> (\<forall>j. \<not> occurs_at sub s j)"
proof (induction s)
  case Nil
  then show ?case by (auto simp: occurs_at_def)
next
  case (Cons x xs)
  have r: "str_find xs sub = - 1 \<or> 0 \<le> str_find xs sub" using str_find_range [of xs sub] by auto
  show ?case
  proof (cases "prefix sub (x # xs)")
    case True
    then have "occurs_at sub (x # xs) 0" by (simp add: occurs_at_0)
    with True show ?thesis by auto
  next
    case False
    have "(\<forall>j. \<not> occurs_at sub (x # xs) j) \<longleftrightarrow> (\<forall>j. \<not> occurs_at sub xs j)"
    proof
      assume a: "\<forall>j. \<not> occurs_at sub (x # xs) j"
      show "\<forall>j. \<not> occurs_at sub xs j"
      proof
        fix j from a have "\<not> occurs_at sub (x # xs) (Suc j)" by blast
        then show "\<not> occurs_at sub xs j" by (simp add: occurs_at_Suc)
      qed
    next
      assume a: "\<forall>j. \<not> occurs_at sub xs j"
      show "\<forall>j. \<not> occurs_at sub (x # xs) j"
      proof
        fix j show "\<not> occurs_at sub (x # xs) j"
          using a False by (cases j) (simp_all add: occurs_at_0 occurs_at_Suc)
      qed
    qed
    with False Cons r show ?thesis by (auto simp: Let_def)
  qed
qed

lemma str_find_first: "str_find s sub = int i \<longleftrightarrow> first_occurrence sub s i"
proof (induction s arbitrary: i)
  case Nil
  then show ?case by (auto simp: first_occurrence_def occurs_at_def)
next
  case (Cons x xs)
  show ?case
  proof (cases "prefix sub (x # xs)")
    case True
    then have o: "occurs_at sub (x # xs) 0" by (simp add: occurs_at_0)
    have "first_occurrence sub (x # xs) i \<longleftrightarrow> i = 0"
    proof
      assume "first_occurrence sub (x # xs) i"
      with o show "i = 0" by (auto simp: first_occurrence_def)
    next
      assume "i = 0"
      with o show "first_occurrence sub (x # xs) i" by (simp add: first_occurrence_def)
    qed
    with True show ?thesis by simp
  next
    case False
    then have no: "\<not> occurs_at sub (x # xs) 0" by (simp add: occurs_at_0)
    have r: "str_find xs sub = - 1 \<or> 0 \<le> str_find xs sub" using str_find_range [of xs sub] by auto
    show ?thesis
    proof (cases i)
      case 0
      with no have "\<not> first_occurrence sub (x # xs) i" by (simp add: first_occurrence_def)
      moreover from False r 0 have "str_find (x # xs) sub \<noteq> int i" by (auto simp: Let_def)
      ultimately show ?thesis by simp
    next
      case (Suc k)
      have "first_occurrence sub (x # xs) (Suc k) \<longleftrightarrow> first_occurrence sub xs k"
      proof
        assume a: "first_occurrence sub (x # xs) (Suc k)"
        then have "occurs_at sub xs k" by (simp add: first_occurrence_def occurs_at_Suc)
        moreover have "\<forall>j<k. \<not> occurs_at sub xs j"
        proof (intro allI impI)
          fix j assume "j < k"
          then have "Suc j < Suc k" by simp
          with a have "\<not> occurs_at sub (x # xs) (Suc j)" unfolding first_occurrence_def by blast
          then show "\<not> occurs_at sub xs j" by (simp add: occurs_at_Suc)
        qed
        ultimately show "first_occurrence sub xs k" by (simp add: first_occurrence_def)
      next
        assume a: "first_occurrence sub xs k"
        then have "occurs_at sub (x # xs) (Suc k)" by (simp add: first_occurrence_def occurs_at_Suc)
        moreover have "\<forall>j<Suc k. \<not> occurs_at sub (x # xs) j"
        proof (intro allI impI)
          fix j assume j: "j < Suc k"
          show "\<not> occurs_at sub (x # xs) j"
          proof (cases j)
            case 0
            with no show ?thesis by simp
          next
            case (Suc m)
            with j have "m < k" by simp
            with a have "\<not> occurs_at sub xs m" unfolding first_occurrence_def by blast
            with Suc show ?thesis by (simp add: occurs_at_Suc)
          qed
        qed
        ultimately show "first_occurrence sub (x # xs) (Suc k)" by (simp add: first_occurrence_def)
      qed
      moreover have "str_find (x # xs) sub = int (Suc k) \<longleftrightarrow> str_find xs sub = int k"
        using False r by (auto simp: Let_def)
      ultimately show ?thesis using Cons Suc by simp
    qed
  qed
qed

section \<open>Occurrences\<close>

lemma occurs_at_nth: "occurs_at sub s j \<Longrightarrow> i < length sub \<Longrightarrow> s ! (j + i) = sub ! i"
proof -
  assume o: "occurs_at sub s j" and i: "i < length sub"
  from o have t: "take (length sub) (drop j s) = sub" and l: "j + length sub \<le> length s"
    by (simp_all add: occurs_at_def)
  from i have "take (length sub) (drop j s) ! i = drop j s ! i" by simp
  also from l i have "\<dots> = s ! (j + i)" by simp
  finally show ?thesis using t by simp
qed

lemma occurs_at_append: "occurs_at sub s j \<Longrightarrow> occurs_at sub (s @ t) j"
  by (simp add: occurs_at_def)

lemma occurs_at_take:
  "occurs_at sub (take L s) j \<longleftrightarrow> occurs_at sub s j \<and> j + length sub \<le> L"
proof (cases "j + length sub \<le> L")
  case True
  then have "take (length sub) (drop j (take L s)) = take (length sub) (drop j s)"
    by (simp add: drop_take min_def)
  with True show ?thesis by (auto simp: occurs_at_def)
next
  case False
  then show ?thesis by (auto simp: occurs_at_def)
qed

lemma first_occurrence_take:
  "first_occurrence sub s e \<Longrightarrow> e + length sub \<le> L \<Longrightarrow> first_occurrence sub (take L s) e"
  by (simp add: first_occurrence_def occurs_at_take)

lemma first_occurrence_beyond:
  assumes "first_occurrence sub s e" and "L < e + length sub"
  shows "\<not> occurs_at sub (take L s) j"
proof
  assume "occurs_at sub (take L s) j"
  then have o: "occurs_at sub s j" and "j + length sub \<le> L" by (simp_all add: occurs_at_take)
  with assms(2) have "j < e" by simp
  with assms(1) o show False by (simp add: first_occurrence_def)
qed

lemma first_occurrence_unique:
  "first_occurrence sub s e \<Longrightarrow> first_occurrence sub s e' \<Longrightarrow> e = e'"
  unfolding first_occurrence_def by (meson linorder_neqE_nat)

lemma first_occurrence_exists: "occurs_at sub s j \<Longrightarrow> \<exists>e. first_occurrence sub s e"
proof -
  assume "occurs_at sub s j"
  then have "str_find s sub \<noteq> - 1" by (auto simp: str_find_none)
  with str_find_range [of s sub] obtain e where "str_find s sub = int e"
    by (metis nonneg_int_cases)
  then show ?thesis by (auto simp: str_find_first)
qed

section \<open>The EOF marker\<close>

lemma length_eof_marker: "length eof_marker = 16"
  by (simp add: eof_marker_def)

lemma eof_marker_replicate: "eof_marker = replicate 15 True @ [False]"
  by (simp add: eof_marker_def eval_nat_numeral)

lemma eof_marker_ones: "i < 15 \<Longrightarrow> eof_marker ! i = True"
  by (simp add: eof_marker_replicate nth_append)

lemma eof_marker_last: "eof_marker ! 15 = False"
  by (simp add: eof_marker_replicate nth_append)

lemma byte_boundary: "\<exists>k. j \<le> 8 * k \<and> 8 * k \<le> j + (7::nat)"
proof -
  have "j + 7 = 8 * ((j + 7) div 8) + (j + 7) mod 8" by simp
  moreover have "(j + 7) mod 8 < 8" by simp
  ultimately have "j \<le> 8 * ((j + 7) div 8) \<and> 8 * ((j + 7) div 8) \<le> j + 7" by linarith
  then show ?thesis by blast
qed

lemma sentinel_not_before_end:
  assumes ascii: "is_ascii p" and j: "j < 8 * length p"
  shows "\<not> occurs_at eof_marker (str_to_bin p @ eof_marker @ rest) j"
proof
  let ?s = "str_to_bin p @ eof_marker @ rest"
  assume o: "occurs_at eof_marker ?s j"
  have n: "length (str_to_bin p) = 8 * length p"
    using ascii by (simp add: length_str_to_bin is_ascii_latin1)
  from byte_boundary obtain k where k: "j \<le> 8 * k" "8 * k \<le> j + 7" by blast
  show False
  proof (cases "k < length p")
    case True
    with ascii have "str_to_bin p ! (8 * k) = False" by (rule str_to_bin_byte_start)
    with True n have z: "?s ! (8 * k) = False" by (simp add: nth_append)
    from k have "8 * k - j < 15" by simp
    then have "eof_marker ! (8 * k - j) = True" by (rule eof_marker_ones)
    moreover from k o have "?s ! (j + (8 * k - j)) = eof_marker ! (8 * k - j)"
      by (intro occurs_at_nth) (simp_all add: length_eof_marker)
    moreover from k have "j + (8 * k - j) = 8 * k" by simp
    ultimately show False using z by simp
  next
    case False
    with k j have kk: "k = length p" by simp
    with k j have d: "j + 15 - 8 * length p < 15" and ge: "8 * length p \<le> j + 15" by simp_all
    from o have "?s ! (j + 15) = eof_marker ! 15"
      by (intro occurs_at_nth) (simp_all add: length_eof_marker)
    then have "?s ! (j + 15) = False" by (simp add: eof_marker_last)
    moreover from ge d n have "?s ! (j + 15) = eof_marker ! (j + 15 - 8 * length p)"
      by (simp add: nth_append length_eof_marker)
    moreover from d have "eof_marker ! (j + 15 - 8 * length p) = True" by (rule eof_marker_ones)
    ultimately show False by simp
  qed
qed

lemma sentinel_at_end:
  assumes "is_ascii p"
  shows "first_occurrence eof_marker (str_to_bin p @ eof_marker @ rest) (8 * length p)"
proof -
  have n: "length (str_to_bin p) = 8 * length p"
    using assms by (simp add: length_str_to_bin is_ascii_latin1)
  then have "occurs_at eof_marker (str_to_bin p @ eof_marker @ rest) (8 * length p)"
    by (simp add: occurs_at_def)
  with assms show ?thesis
    by (simp add: first_occurrence_def sentinel_not_before_end)
qed

lemma no_sentinel_in_ascii:
  assumes "is_ascii p"
  shows "\<not> occurs_at eof_marker (str_to_bin p) j"
proof
  assume o: "occurs_at eof_marker (str_to_bin p) j"
  have n: "length (str_to_bin p) = 8 * length p"
    using assms by (simp add: length_str_to_bin is_ascii_latin1)
  with o have "j < 8 * length p" by (simp add: occurs_at_def length_eof_marker)
  with assms have "\<not> occurs_at eof_marker (str_to_bin p @ eof_marker @ []) j"
    by (rule sentinel_not_before_end)
  moreover from o have "occurs_at eof_marker (str_to_bin p @ eof_marker @ []) j"
    by (rule occurs_at_append)
  ultimately show False by simp
qed

section \<open>The two extractors in terms of the LSB sequence\<close>

lemma extract_watermark_bits:
  "extract_watermark img =
     (let bits_str = take 98304 (lsb_seq img); eof = str_find bits_str eof_marker
      in if eof = - 1 then None else Some (bin_to_str (take (nat eof) bits_str)))"
proof -
  have "lsb_bits img (min (length img) 98304) = take (min (length img) 98304) (lsb_seq img)"
    by (rule lsb_bits_take) simp
  also have "\<dots> = take 98304 (lsb_seq img)"
    by (simp add: lsb_seq_def min_def)
  finally show ?thesis by (simp add: extract_watermark_def)
qed

lemma gui_extract_watermark_bits:
  "gui_extract_watermark img =
     (let bits_str = lsb_seq img; eof = str_find bits_str eof_marker
      in if eof = - 1 then None else Some (bin_to_str (take (nat eof) bits_str)))"
proof -
  have "lsb_bits img (length img) = take (length img) (lsb_seq img)"
    by (rule lsb_bits_take) simp
  then show ?thesis by (simp add: gui_extract_watermark_def lsb_seq_def)
qed

lemma extract_watermark_none:
  "(\<And>j. \<not> occurs_at eof_marker (take 98304 (lsb_seq img)) j) \<Longrightarrow> extract_watermark img = None"
  by (simp add: extract_watermark_bits str_find_none)

lemma extract_watermark_some:
  assumes "first_occurrence eof_marker (take 98304 (lsb_seq img)) e"
  shows "extract_watermark img = Some (bin_to_str (take e (lsb_seq img)))"
proof -
  from assms have f: "str_find (take 98304 (lsb_seq img)) eof_marker = int e"
    by (simp add: str_find_first)
  from assms have "e \<le> 98304"
    by (simp add: first_occurrence_def occurs_at_def)
  then have "take e (take 98304 (lsb_seq img)) = take e (lsb_seq img)" by (simp add: min_def)
  with f show ?thesis by (simp add: extract_watermark_bits)
qed

lemma gui_extract_watermark_none:
  "(\<And>j. \<not> occurs_at eof_marker (lsb_seq img) j) \<Longrightarrow> gui_extract_watermark img = None"
  by (simp add: gui_extract_watermark_bits str_find_none)

lemma gui_extract_watermark_some:
  assumes "first_occurrence eof_marker (lsb_seq img) e"
  shows "gui_extract_watermark img = Some (bin_to_str (take e (lsb_seq img)))"
proof -
  from assms have "str_find (lsb_seq img) eof_marker = int e" by (simp add: str_find_first)
  then show ?thesis by (simp add: gui_extract_watermark_bits)
qed

section \<open>Embedding then extracting\<close>

lemma lsb_seq_embedded:
  assumes "is_ascii p" and "8 * length p + 16 \<le> length B"
  shows "lsb_seq (write_bits (str_to_bin p @ eof_marker) B) =
           str_to_bin p @ eof_marker @ drop (8 * length p + 16) (lsb_seq B)"
proof -
  have n: "length (str_to_bin p) = 8 * length p"
    using assms(1) by (simp add: length_str_to_bin is_ascii_latin1)
  with assms(2) have "length (str_to_bin p @ eof_marker) \<le> length B"
    by (simp add: length_eof_marker)
  from lsb_seq_write_bits [OF this] n show ?thesis by (simp add: length_eof_marker)
qed

lemma extract_embedded_within_cap:
  assumes "is_ascii p" and "8 * length p + 16 \<le> length B" and "8 * length p + 16 \<le> 98304"
  shows "extract_watermark (write_bits (str_to_bin p @ eof_marker) B) = Some p"
proof -
  let ?W = "write_bits (str_to_bin p @ eof_marker) B"
  have n: "length (str_to_bin p) = 8 * length p"
    using assms(1) by (simp add: length_str_to_bin is_ascii_latin1)
  have s: "lsb_seq ?W = str_to_bin p @ eof_marker @ drop (8 * length p + 16) (lsb_seq B)"
    using assms(1,2) by (rule lsb_seq_embedded)
  from assms(1) have "first_occurrence eof_marker (lsb_seq ?W) (8 * length p)"
    unfolding s by (rule sentinel_at_end)
  with assms(3) have "first_occurrence eof_marker (take 98304 (lsb_seq ?W)) (8 * length p)"
    by (intro first_occurrence_take) (simp_all add: length_eof_marker)
  then have "extract_watermark ?W = Some (bin_to_str (take (8 * length p) (lsb_seq ?W)))"
    by (rule extract_watermark_some)
  also from n have "take (8 * length p) (lsb_seq ?W) = str_to_bin p" unfolding s by simp
  finally show ?thesis using assms(1) by (simp add: bin_to_str_str_to_bin is_ascii_latin1)
qed

lemma extract_embedded_beyond_cap:
  assumes "is_ascii p" and "8 * length p + 16 \<le> length B" and "98304 < 8 * length p + 16"
  shows "extract_watermark (write_bits (str_to_bin p @ eof_marker) B) = None"
proof -
  let ?W = "write_bits (str_to_bin p @ eof_marker) B"
  have s: "lsb_seq ?W = str_to_bin p @ eof_marker @ drop (8 * length p + 16) (lsb_seq B)"
    using assms(1,2) by (rule lsb_seq_embedded)
  from assms(1) have f: "first_occurrence eof_marker (lsb_seq ?W) (8 * length p)"
    unfolding s by (rule sentinel_at_end)
  show ?thesis
  proof (rule extract_watermark_none)
    fix j
    from f show "\<not> occurs_at eof_marker (take 98304 (lsb_seq ?W)) j"
      by (rule first_occurrence_beyond) (simp add: length_eof_marker assms(3))
  qed
qed

lemma gui_extract_embedded:
  assumes "is_ascii p" and "8 * length p + 16 \<le> length B"
  shows "gui_extract_watermark (write_bits (str_to_bin p @ eof_marker) B) = Some p"
proof -
  let ?W = "write_bits (str_to_bin p @ eof_marker) B"
  have n: "length (str_to_bin p) = 8 * length p"
    using assms(1) by (simp add: length_str_to_bin is_ascii_latin1)
  have s: "lsb_seq ?W = str_to_bin p @ eof_marker @ drop (8 * length p + 16) (lsb_seq B)"
    using assms(1,2) by (rule lsb_seq_embedded)
  from assms(1) have "first_occurrence eof_marker (lsb_seq ?W) (8 * length p)"
    unfolding s by (rule sentinel_at_end)
  then have "gui_extract_watermark ?W = Some (bin_to_str (take (8 * length p) (lsb_seq ?W)))"
    by (rule gui_extract_watermark_some)
  also from n have "take (8 * length p) (lsb_seq ?W) = str_to_bin p" unfolding s by simp
  finally show ?thesis using assms(1) by (simp add: bin_to_str_str_to_bin is_ascii_latin1)
qed

section \<open>Capacity check\<close>

lemma embed_watermark_cases:
  "embed_watermark B p =
     (if length B < length (str_to_bin p) + 16
      then Inl (ValueError ''Watermark data is too large for this image.'')
      else Inr (write_bits (str_to_bin p @ eof_marker) B))"
  by (simp add: embed_watermark_def length_eof_marker)

lemma embed_watermark_fits:
  "list_all (\<lambda>c. c < 256) p \<Longrightarrow> 8 * length p + 16 \<le> length B \<Longrightarrow>
   embed_watermark B p = Inr (write_bits (str_to_bin p @ eof_marker) B)"
  by (simp add: embed_watermark_cases length_str_to_bin)

lemma lsb_seq_take: "lsb_seq (take n B) = take n (lsb_seq B)"
  by (simp add: lsb_seq_def take_map)

lemma lsb_seq_zeros_marker:
  "lsb_seq (replicate n 0 @ replicate 15 1 @ [0]) = replicate n False @ eof_marker"
  by (simp add: lsb_seq_def eof_marker_replicate)

lemma first_occurrence_after_zeros:
  "first_occurrence eof_marker (replicate n False @ eof_marker) n"
proof -
  have "occurs_at eof_marker (replicate n False @ eof_marker) n"
    by (simp add: occurs_at_def)
  moreover have "\<not> occurs_at eof_marker (replicate n False @ eof_marker) j" if "j < n" for j
  proof
    assume "occurs_at eof_marker (replicate n False @ eof_marker) j"
    then have "(replicate n False @ eof_marker) ! (j + 0) = eof_marker ! 0"
      by (rule occurs_at_nth) (simp add: length_eof_marker)
    with that show False by (simp add: nth_append eof_marker_ones)
  qed
  ultimately show ?thesis by (simp add: first_occurrence_def)
qed

section \<open>The embedding on the store\<close>

lemma fold_set_lsb_st:
  "flat < length h \<Longrightarrow>
   fold (set_lsb_st data flat) is h = h[flat := fold (set_lsb data) is (h ! flat)]"
proof (induction "is" arbitrary: h)
  case Nil
  then show ?case by simp
next
  case (Cons i "is")
  let ?h = "h[flat := set_lsb data i (h ! flat)]"
  have "fold (set_lsb_st data flat) (i # is) h = fold (set_lsb_st data flat) is ?h"
    by (simp add: set_lsb_st_def)
  also from Cons.prems have "\<dots> = ?h[flat := fold (set_lsb data) is (?h ! flat)]"
    by (intro Cons.IH) simp
  also from Cons.prems have "\<dots> = h[flat := fold (set_lsb data) (i # is) (h ! flat)]"
    by simp
  finally show ?case .
qed

lemma embed_watermark_st_eq:
  assumes "img < length h"
  shows "embed_watermark_st h img p =
     (case embed_watermark (h ! img) p of
        Inl e \<Rightarrow> (h @ [h ! img, h ! img], Inl e)
      | Inr W \<Rightarrow> (h @ [h ! img, W, W], Inr (length h + 2)))"
proof -
  define data where "data = str_to_bin p @ eof_marker"
  define B where "B = h ! img"
  have "fold (set_lsb_st data (Suc (length h))) [0..<length data] (h @ [B, B]) =
      (h @ [B, B])[Suc (length h) := fold (set_lsb data) [0..<length data] ((h @ [B, B]) ! Suc (length h))]"
    by (rule fold_set_lsb_st) simp
  also have "\<dots> = h @ [B, write_bits data B]"
    by (simp add: write_bits_def nth_append list_update_append)
  finally have f: "fold (set_lsb_st data (Suc (length h))) [0..<length data] (h @ [B, B]) =
      h @ [B, write_bits data B]" .
  have "embed_watermark_st h img p =
     (if length data > length B
      then (h @ [B, B], Inl (ValueError ''Watermark data is too large for this image.''))
      else (h @ [B, write_bits data B, write_bits data B], Inr (length h + 2)))"
    unfolding embed_watermark_st_def data_def [symmetric] alloc_def
    using assms by (simp add: Let_def nth_append f B_def [symmetric])
  moreover have "embed_watermark (h ! img) p =
     (if length data > length B
      then Inl (ValueError ''Watermark data is too large for this image.'')
      else Inr (write_bits data B))"
    unfolding embed_watermark_def data_def [symmetric] B_def [symmetric] by (simp add: Let_def)
  ultimately show ?thesis by (simp add: B_def)
qed

section \<open>Services\<close>

lemma length_alice_record: "length alice_record = 150"
  by (simp add: alice_record_def py_str_def)

lemma length_mallory_record: "length mallory_record = 152"
  by (simp add: mallory_record_def py_str_def)

lemma is_ascii_alice_record: "is_ascii alice_record"
  by (simp add: alice_record_def py_str_def is_ascii_def)

lemma is_ascii_mallory_record: "is_ascii mallory_record"
  by (simp add: mallory_record_def py_str_def is_ascii_def)

lemma length_alice_image: "length alice_image = 30000"
  by (simp add: alice_image_def length_write_bits)

lemma embed_alice: "embed_watermark (replicate 30000 0) alice_record = Inr alice_image"
  unfolding alice_image_def
  by (intro embed_watermark_fits is_ascii_latin1 is_ascii_alice_record)
     (simp add: length_alice_record)

lemma extract_alice_image: "extract_watermark alice_image = Some alice_record"
  unfolding alice_image_def
  by (rule extract_embedded_within_cap) (simp_all add: is_ascii_alice_record length_alice_record)

lemma validate_embed_inputs_ok:
  "owner \<noteq> [] \<Longrightarrow> passkey \<noteq> [] \<Longrightarrow> validate_embed_inputs owner passkey passkey (Some img) = []"
  by (simp add: validate_embed_inputs_def)

lemma utf8_encodable_ascii: "is_ascii s \<Longrightarrow> utf8_encodable s"
  by (induction s) (simp_all add: is_ascii_def utf8_encodable_def)

lemma is_ascii_mallory_compact: "is_ascii mallory_compact"
  by (simp add: mallory_compact_def py_str_def is_ascii_def)

lemma is_ascii_mallory_metadata_compact: "is_ascii mallory_metadata_compact"
  by (simp add: mallory_metadata_compact_def py_str_def is_ascii_def)

lemma mallory_compact_encodable: "utf8_encodable (json_dumps_compact mallory_libs v)"
  by (simp add: mallory_libs_def utf8_encodable_ascii is_ascii_mallory_compact
      is_ascii_mallory_metadata_compact)

lemma create_mallory_data:
  "create_watermark_data mallory_libs (py_str ''Mallory'') [] (py_str ''2024-06-01 00:00:00'')
     (py_str ''x'') = Inr mallory_dict"
  by (simp add: create_watermark_data_def sha256_of_def utf8_encodable_def mallory_libs_def
      mallory_dict_def py_str_def)

lemma embed_steps_mallory:
  assumes "embed_watermark img mallory_record = Inr W"
  shows "embed_watermark_steps mallory_libs None img (py_str ''Mallory'') [] (py_str ''x'')
           (py_str ''2024-06-01 00:00:00'') = Inr (W, PyNone)"
proof -
  have j: "json_dumps mallory_libs (PyDict mallory_dict) = mallory_record"
    by (simp add: mallory_libs_def)
  have h: "sha256_of mallory_libs (json_dumps_compact mallory_libs (PyDict mallory_dict)) =
      Inr (sha256_hexdigest mallory_libs (json_dumps_compact mallory_libs (PyDict mallory_dict)))"
    by (simp add: sha256_of_def mallory_compact_encodable)
  have m: "\<And>v. metadata_to_data_uri mallory_libs v =
      Inr (py_str ''data:application/json;base64,'' @
           b64encode mallory_libs (json_dumps_compact mallory_libs v))"
    by (simp add: metadata_to_data_uri_def Let_def mallory_compact_encodable)
  show ?thesis
    unfolding embed_watermark_steps_def create_mallory_data
    by (simp add: j assms h m Let_def)
qed

lemma service_embed_over_alice:
  "service_embed_watermark mallory_libs None (Some alice_image)
     (py_str ''Mallory'') [] (py_str ''x'') (py_str ''x'') (py_str ''2024-06-01 00:00:00'') =
   (Some (write_bits (str_to_bin mallory_record @ eof_marker) alice_image), PyNone)"
proof -
  have v: "validate_embed_inputs (py_str ''Mallory'') (py_str ''x'') (py_str ''x'') (Some alice_image) = []"
    by (rule validate_embed_inputs_ok) (simp_all add: py_str_def)
  have e: "embed_watermark alice_image mallory_record =
      Inr (write_bits (str_to_bin mallory_record @ eof_marker) alice_image)"
    by (intro embed_watermark_fits is_ascii_latin1 is_ascii_mallory_record)
       (simp add: length_mallory_record length_alice_image)
  show ?thesis
    by (simp add: service_embed_watermark_def v Let_def embed_steps_mallory [OF e])
qed

lemma extract_over_alice:
  "extract_watermark (write_bits (str_to_bin mallory_record @ eof_marker) alice_image) =
     Some mallory_record"
  by (rule extract_embedded_within_cap)
     (simp_all add: is_ascii_mallory_record length_mallory_record length_alice_image)

lemma records_differ: "mallory_record \<noteq> alice_record"
proof
  assume "mallory_record = alice_record"
  then have "length mallory_record = length alice_record" by simp
  then show False by (simp add: length_mallory_record length_alice_record)
qed

lemma length_unprotected_text: "length unprotected_text = 66"
  by (simp add: unprotected_text_def py_str_def)

lemma is_ascii_unprotected_text: "is_ascii unprotected_text"
  by (simp add: unprotected_text_def py_str_def is_ascii_def)

lemma length_unprotected_image: "length unprotected_image = 30000"
  by (simp add: unprotected_image_def length_write_bits)

lemma extract_unprotected_image: "extract_watermark unprotected_image = Some unprotected_text"
  unfolding unprotected_image_def
  by (rule extract_embedded_within_cap)
     (simp_all add: is_ascii_unprotected_text length_unprotected_text)

lemma preview_stores_record:
  assumes "in_uploaded_file inp = Some B" and "extract_watermark B = Some t" and "t \<noteq> []"
    and "json_loads L t = Some (PyDict d)"
  shows "render_preview_section L inp st = st\<lparr>existing_watermark := Attr (Some d)\<rparr>"
  using assms by (simp add: render_preview_section_def)

text \<open>
  One run of the page on an image that carries a record with a \<open>passkey_hash\<close>, without a
  click on "Verify for Resell" or "Update Watermark": the embed button is guarded by the
  \<open>resell_verified\<close> attribute as the session holds it when the run starts.
\<close>

lemma render_protected_record:
  assumes "in_uploaded_file inp = Some B" and "extract_watermark B = Some t" and "t \<noteq> []"
    and "json_loads L t = Some (PyDict d)"
    and "py_truthy (dict_get d (py_str ''passkey_hash''))"
    and "\<not> verify_clicked inp" and "\<not> update_clicked inp"
  shows "render L blockchain inp st =
     (st\<lparr>existing_watermark := Attr (Some d)\<rparr>, None,
      if is_resell_verified st
      then (if embed_clicked inp
            then Called (service_embed_watermark L blockchain (Some B) (in_owner inp)
                           (in_buyer inp) (in_passkey inp) (in_confirm_passkey inp)
                           (in_datetime_str inp))
            else NotClicked)
      else Refused already_watermarked_warning)"
proof -
  let ?st1 = "st\<lparr>existing_watermark := Attr (Some d)\<rparr>"
  have p: "render_preview_section L inp st = ?st1"
    using assms(1-4) by (rule preview_stores_record)
  from assms(5) have ne: "d \<noteq> []" by (auto simp: dict_get_def)
  have v: "is_resell_verified ?st1 = is_resell_verified st"
    by (simp add: is_resell_verified_def)
  from assms(5-7) ne have r: "handle_resell_functionality L inp ?st1 = (?st1, None)"
    by (simp add: handle_resell_functionality_def render_resell_form_def Let_def)
  from ne assms(1) show ?thesis
    by (simp add: render_def p r handle_embed_button_def has_existing_watermark_def v)
qed

text \<open>
  One run on an image that carries a non-empty record without \<open>passkey_hash\<close>, with no
  click: the page sets \<open>resell_verified\<close>.
\<close>

lemma render_unprotected_record:
  assumes "in_uploaded_file inp = Some B" and "extract_watermark B = Some t" and "t \<noteq> []"
    and "json_loads L t = Some (PyDict d)" and "d \<noteq> []"
    and "\<not> py_truthy (dict_get d (py_str ''passkey_hash''))"
    and "\<not> update_clicked inp" and "\<not> embed_clicked inp"
  shows "render L blockchain inp st =
     (st\<lparr>existing_watermark := Attr (Some d), resell_verified := Attr True\<rparr>, None, NotClicked)"
proof -
  let ?st1 = "st\<lparr>existing_watermark := Attr (Some d)\<rparr>"
  have p: "render_preview_section L inp st = ?st1"
    using assms(1-4) by (rule preview_stores_record)
  from assms(5-7) have r: "handle_resell_functionality L inp ?st1 =
      (?st1\<lparr>resell_verified := Attr True\<rparr>, None)"
    by (simp add: handle_resell_functionality_def is_resell_verified_def
        render_resell_form_def)
  from assms(5,8) show ?thesis
    by (simp add: render_def p r handle_embed_button_def has_existing_watermark_def
        is_resell_verified_def)
qed

section \<open>Claims\<close>

subsection \<open>C1\<close>

text \<open>
  C1 (as stated, refuted). The claim has no bound on the payload length, but the backend
  extractor scans 98304 samples only. A JSON record with an owner name of 12300 letters is
  ASCII and fits a buffer of 100000 samples; embedding succeeds and extraction returns
  \<open>None\<close>.
\<close>

theorem C1_counterexample:
  "is_ascii (py_str ''{\"owner\": \"'' @ replicate 12300 97 @ py_str ''\"}'') \<and>
   8 * length (py_str ''{\"owner\": \"'' @ replicate 12300 97 @ py_str ''\"}'') + 16
     \<le> length (replicate 100000 (0::sample)) \<and>
   map_sum id extract_watermark
     (embed_watermark (replicate 100000 0)
        (py_str ''{\"owner\": \"'' @ replicate 12300 97 @ py_str ''\"}'')) = Inr None"
proof -
  let ?P = "py_str ''{\"owner\": \"'' @ replicate 12300 97 @ py_str ''\"}''"
  let ?B = "replicate 100000 (0::sample)"
  have a: "is_ascii ?P" by (simp add: is_ascii_def py_str_def list_all_iff)
  have l: "length ?P = 12313" by (simp add: py_str_def)
  from l have c: "8 * length ?P + 16 \<le> length ?B" by simp
  from l have b: "98304 < 8 * length ?P + 16" by simp
  from a c have "embed_watermark ?B ?P = Inr (write_bits (str_to_bin ?P @ eof_marker) ?B)"
    by (intro embed_watermark_fits is_ascii_latin1)
  moreover from a c b have "extract_watermark (write_bits (str_to_bin ?P @ eof_marker) ?B) = None"
    by (rule extract_embedded_beyond_cap)
  ultimately show ?thesis using a c by simp
qed

text \<open>
  C1 (amended). For every ASCII payload \<open>p\<close> and every buffer \<open>B\<close> with
  \<open>len(B) \<ge> 8*len(p) + 16\<close>, provided the embedded bits lie within the scanned prefix
  (\<open>8*len(p) + 16 \<le> 98304\<close>), embedding succeeds and extracting from the result returns
  \<open>p\<close> unchanged.
\<close>

theorem C1_roundtrip_within_cap:
  assumes "is_ascii p" and "8 * length p + 16 \<le> length B" and "8 * length p + 16 \<le> 98304"
  shows "\<exists>B'. embed_watermark B p = Inr B' \<and> extract_watermark B' = Some p"
proof -
  from assms(1,2) have "embed_watermark B p = Inr (write_bits (str_to_bin p @ eof_marker) B)"
    by (intro embed_watermark_fits is_ascii_latin1)
  moreover from assms have "extract_watermark (write_bits (str_to_bin p @ eof_marker) B) = Some p"
    by (rule extract_embedded_within_cap)
  ultimately show ?thesis by simp
qed

theorem C1_roundtrip_within_cap_witness:
  "is_ascii (py_str ''{\"owner\": \"A\"}'') \<and>
   8 * length (py_str ''{\"owner\": \"A\"}'') + 16 \<le> length (replicate 128 (0::sample)) \<and>
   8 * length (py_str ''{\"owner\": \"A\"}'') + 16 \<le> (98304::nat) \<and>
   (\<exists>B'. embed_watermark (replicate 128 0) (py_str ''{\"owner\": \"A\"}'') = Inr B' \<and>
         extract_watermark B' = Some (py_str ''{\"owner\": \"A\"}''))"
proof -
  have a: "is_ascii (py_str ''{\"owner\": \"A\"}'')" by (simp add: is_ascii_def py_str_def)
  have b: "8 * length (py_str ''{\"owner\": \"A\"}'') + 16 \<le> length (replicate 128 (0::sample))"
    by (simp add: py_str_def)
  have c: "8 * length (py_str ''{\"owner\": \"A\"}'') + 16 \<le> (98304::nat)"
    by (simp add: py_str_def)
  from a b c C1_roundtrip_within_cap [OF a b c] show ?thesis by blast
qed

subsection \<open>C2\<close>

text \<open>
  C2. For an image that already carries an ownership record, embed-new is to be refused
  with the "already has a watermark" signal and the record is not to be overwritten. The
  page does this in a new session: with Alice's image, whose record is protected by the
  passkey \<open>"pk123"\<close>, a click on the embed button gives the warning and the service is not
  called. It fails once \<open>resell_verified\<close> is left set by an earlier image: a run on an
  image with a record without \<open>passkey_hash\<close> sets the attribute, the preview of the next
  upload does not reset it, and on Alice's image the same click, with no passkey entered
  and no click on "Verify for Resell", then calls \<open>WatermarkService.embed_watermark\<close>,
  which makes no check of its own and returns an image that carries Mallory's record in
  place of Alice's (\<open>mallory_libs\<close> gives what the library functions return in this
  call).
\<close>

theorem C2_stale_resell_flag_overwrites:
  "extract_watermark alice_image = Some alice_record \<and>
   json_loads mallory_libs alice_record = Some (PyDict alice_dict) \<and>
   py_truthy (dict_get alice_dict (py_str ''passkey_hash'')) \<and>
   snd (snd (render mallory_libs None (mallory_input alice_image) fresh_session)) =
     Refused already_watermarked_warning \<and>
   fst (render mallory_libs None (browse_input unprotected_image) fresh_session) =
     \<lparr>existing_watermark = Attr (Some unprotected_record), resell_verified = Attr True\<rparr> \<and>
   \<not> verify_clicked (mallory_input alice_image) \<and>
   in_resell_passkey (mallory_input alice_image) = [] \<and>
   snd (snd (render mallory_libs None (mallory_input alice_image)
               (fst (render mallory_libs None (browse_input unprotected_image) fresh_session)))) =
     Called (Some (write_bits (str_to_bin mallory_record @ eof_marker) alice_image), PyNone) \<and>
   extract_watermark (write_bits (str_to_bin mallory_record @ eof_marker) alice_image) =
     Some mallory_record \<and>
   mallory_record \<noteq> alice_record"
proof -
  let ?stale = "\<lparr>existing_watermark = Attr (Some unprotected_record),
                 resell_verified = Attr True\<rparr>"
  have a1: "in_uploaded_file (mallory_input alice_image) = Some alice_image"
    by (simp add: mallory_input_def)
  have a2: "alice_record \<noteq> []" using length_alice_record by auto
  have a3: "json_loads mallory_libs alice_record = Some (PyDict alice_dict)"
    by (simp add: mallory_libs_def)
  have a4: "py_truthy (dict_get alice_dict (py_str ''passkey_hash''))"
    by (simp add: dict_get_def alice_dict_def py_str_def)
  have a5: "\<not> verify_clicked (mallory_input alice_image)"
    and a6: "\<not> update_clicked (mallory_input alice_image)"
    and a7: "in_resell_passkey (mallory_input alice_image) = []"
    by (simp_all add: mallory_input_def)
  note alice = render_protected_record [OF a1 extract_alice_image a2 a3 a4 a5 a6]
  have f: "in_owner (mallory_input alice_image) = py_str ''Mallory'' \<and>
      in_buyer (mallory_input alice_image) = [] \<and>
      in_passkey (mallory_input alice_image) = py_str ''x'' \<and>
      in_confirm_passkey (mallory_input alice_image) = py_str ''x'' \<and>
      in_datetime_str (mallory_input alice_image) = py_str ''2024-06-01 00:00:00'' \<and>
      embed_clicked (mallory_input alice_image)"
    by (simp add: mallory_input_def)
  have r1: "snd (snd (render mallory_libs None (mallory_input alice_image) fresh_session)) =
      Refused already_watermarked_warning"
    by (simp add: alice fresh_session_def is_resell_verified_def)
  have b1: "in_uploaded_file (browse_input unprotected_image) = Some unprotected_image"
    by (simp add: browse_input_def)
  have b2: "unprotected_text \<noteq> []" using length_unprotected_text by auto
  have ne: "unprotected_text \<noteq> alice_record"
    using length_unprotected_text length_alice_record by auto
  have b3: "json_loads mallory_libs unprotected_text = Some (PyDict unprotected_record)"
    using ne by (simp add: mallory_libs_def)
  have b4: "unprotected_record \<noteq> []" by (simp add: unprotected_record_def)
  have b5: "\<not> py_truthy (dict_get unprotected_record (py_str ''passkey_hash''))"
    by (simp add: dict_get_def unprotected_record_def py_str_def)
  have b6: "\<not> update_clicked (browse_input unprotected_image)"
    and b7: "\<not> embed_clicked (browse_input unprotected_image)"
    by (simp_all add: browse_input_def)
  have r2: "fst (render mallory_libs None (browse_input unprotected_image) fresh_session) = ?stale"
    by (simp add: render_unprotected_record [OF b1 extract_unprotected_image b2 b3 b4 b5 b6 b7]
        fresh_session_def)
  have r3: "snd (snd (render mallory_libs None (mallory_input alice_image) ?stale)) =
      Called (Some (write_bits (str_to_bin mallory_record @ eof_marker) alice_image), PyNone)"
    by (simp add: alice is_resell_verified_def f service_embed_over_alice)
  from extract_alice_image a3 a4 r1 r2 a5 a7 r3 extract_over_alice records_differ
  show ?thesis by (simp only: simp_thms)
qed

subsection \<open>C3\<close>

text \<open>
  C3 (as stated, refuted). \<open>verify_resell_passkey\<close> first validates the passkey: with the
  empty string it returns \<open>(False, "Please enter a passkey.")\<close>, also for a record without
  \<open>passkey_hash\<close>.
\<close>

theorem C3_counterexample:
  "\<not> py_truthy (dict_get unprotected_record (py_str ''passkey_hash'')) \<and>
   verify_resell_passkey mallory_libs [] unprotected_record =
     (False, Some (py_str ''Please enter a passkey.''))"
  by (simp add: verify_resell_passkey_def validate_passkey_verification_def dict_get_def
      unprotected_record_def py_str_def)

text \<open>
  C3 (amended). For every record with no \<open>passkey_hash\<close> (the key is missing, or its value
  is \<open>None\<close> or empty) and every non-empty passkey string, \<open>verify_resell_passkey\<close> returns
  \<open>(True, None)\<close> whatever the hash function is: the passkey is not verified. The empty
  passkey is rejected with "Please enter a passkey.". The embed page does not call
  \<open>verify_resell_passkey\<close> for such a record: when the session holds it (and "Update
  Watermark" is not clicked), \<open>_handle_resell_functionality\<close> sets \<open>resell_verified\<close> to
  \<open>True\<close> whatever the passkey field holds.
\<close>

theorem C3_unprotected_resell:
  "\<not> py_truthy (dict_get wm (py_str ''passkey_hash'')) \<longrightarrow>
     (passkey \<noteq> [] \<longrightarrow> verify_resell_passkey L passkey wm = (True, None)) \<and>
     verify_resell_passkey L [] wm = (False, Some (py_str ''Please enter a passkey.'')) \<and>
     (wm \<noteq> [] \<and> existing_watermark st = Attr (Some wm) \<and> \<not> update_clicked inp \<longrightarrow>
        handle_resell_functionality L inp st = (st\<lparr>resell_verified := Attr True\<rparr>, None))"
  by (simp add: verify_resell_passkey_def validate_passkey_verification_def
      handle_resell_functionality_def is_resell_verified_def render_resell_form_def)

theorem C3_unprotected_resell_witness:
  "\<not> py_truthy (dict_get unprotected_record (py_str ''passkey_hash'')) \<and>
   py_str ''not the passkey'' \<noteq> [] \<and>
   verify_resell_passkey mallory_libs (py_str ''not the passkey'') unprotected_record =
     (True, None) \<and>
   unprotected_record \<noteq> [] \<and>
   existing_watermark \<lparr>existing_watermark = Attr (Some unprotected_record),
                        resell_verified = Attr False\<rparr> = Attr (Some unprotected_record) \<and>
   \<not> update_clicked (mallory_input unprotected_image) \<and>
   in_resell_passkey (mallory_input unprotected_image) = [] \<and>
   handle_resell_functionality mallory_libs (mallory_input unprotected_image)
     \<lparr>existing_watermark = Attr (Some unprotected_record), resell_verified = Attr False\<rparr> =
     (\<lparr>existing_watermark = Attr (Some unprotected_record), resell_verified = Attr True\<rparr>,
      None)"
proof -
  let ?st = "\<lparr>existing_watermark = Attr (Some unprotected_record),
              resell_verified = Attr False\<rparr>"
  have a: "\<not> py_truthy (dict_get unprotected_record (py_str ''passkey_hash''))"
    by (simp add: dict_get_def unprotected_record_def py_str_def)
  have b: "py_str ''not the passkey'' \<noteq> []" by (simp add: py_str_def)
  have c: "unprotected_record \<noteq> []" by (simp add: unprotected_record_def)
  have d: "existing_watermark ?st = Attr (Some unprotected_record)" by simp
  have e: "\<not> update_clicked (mallory_input unprotected_image) \<and>
      in_resell_passkey (mallory_input unprotected_image) = []"
    by (simp add: mallory_input_def)
  from a b c d e
    C3_unprotected_resell [of unprotected_record "py_str ''not the passkey''" mallory_libs
      ?st "mallory_input unprotected_image"]
  show ?thesis by simp
qed

subsection \<open>C4\<close>

text \<open>
  C4 (as stated, refuted). A payload whose total bit length (payload bits plus the 16-bit
  marker) equals \<open>len(B)\<close> is embedded: the check is \<open>len(data) > len(flat)\<close>. The
  payload \<open>"A"\<close> has 24 bits in total and goes into a buffer of 24 samples.
\<close>

theorem C4_counterexample:
  "length (str_to_bin [65] @ eof_marker) = length (replicate 24 (0::sample)) \<and>
   embed_watermark (replicate 24 0) [65] =
     Inr [0, 1, 0, 0, 0, 0, 0, 1, 1, 1, 1, 1, 1, 1, 1, 1, 1, 1, 1, 1, 1, 1, 1, 0]"
  by code_simp

text \<open>
  C4 (amended). Embedding a payload whose total bit length equals \<open>len(B) - 1\<close>
  succeeds, embedding one whose total bit length equals \<open>len(B)\<close> succeeds as well, and
  embedding one whose total bit length equals \<open>len(B) + 1\<close> fails with the capacity
  error (a \<open>ValueError\<close> in the source).
\<close>

theorem C4_capacity_boundary:
  "(length (str_to_bin p @ eof_marker) + 1 = length B \<longrightarrow>
      (\<exists>B'. embed_watermark B p = Inr B')) \<and>
   (length (str_to_bin p @ eof_marker) = length B \<longrightarrow>
      (\<exists>B'. embed_watermark B p = Inr B')) \<and>
   (length (str_to_bin p @ eof_marker) = length B + 1 \<longrightarrow>
      embed_watermark B p = Inl (ValueError ''Watermark data is too large for this image.''))"
  by (simp add: embed_watermark_def)

theorem C4_capacity_boundary_witness:
  "length (str_to_bin [65] @ eof_marker) + 1 = length (replicate 25 (0::sample)) \<and>
   (\<exists>B'. embed_watermark (replicate 25 0) [65] = Inr B') \<and>
   length (str_to_bin [65] @ eof_marker) = length (replicate 24 (0::sample)) \<and>
   (\<exists>B'. embed_watermark (replicate 24 0) [65] = Inr B') \<and>
   length (str_to_bin [65] @ eof_marker) = length (replicate 23 (0::sample)) + 1 \<and>
   embed_watermark (replicate 23 0) [65] =
     Inl (ValueError ''Watermark data is too large for this image.'')"
proof -
  have l: "length (str_to_bin [65] @ eof_marker) = 24" by code_simp
  from l have a: "length (str_to_bin [65] @ eof_marker) + 1 = length (replicate 25 (0::sample))"
    by simp
  from l have b: "length (str_to_bin [65] @ eof_marker) = length (replicate 24 (0::sample))"
    by simp
  from l have c: "length (str_to_bin [65] @ eof_marker) = length (replicate 23 (0::sample)) + 1"
    by simp
  from a b c
    C4_capacity_boundary [of "[65]" "replicate 25 0"]
    C4_capacity_boundary [of "[65]" "replicate 24 0"]
    C4_capacity_boundary [of "[65]" "replicate 23 0"]
  show ?thesis by blast
qed

subsection \<open>C5\<close>

text \<open>
  C5. For every buffer \<open>B\<close> and every payload text \<open>p\<close>, \<open>embed_watermark\<close> raises the
  capacity error (a \<open>ValueError\<close> in the source) if and only if \<open>8*len(p) + 16 > len(B)\<close>;
  otherwise it succeeds and returns the watermarked buffer: it has the length of \<open>B\<close>, the
  least-significant bits of its first \<open>8*len(p) + 16\<close> samples are the payload bits
  followed by the EOF marker, every sample keeps its seven upper bits, and the samples
  from index \<open>8*len(p) + 16\<close> on are those of \<open>B\<close>. A payload text has characters with
  code points below 256 only: this is the domain of the text-to-bits conversion, and the
  payloads the callers pass are outputs of \<open>json.dumps\<close>, which are ASCII.
\<close>

theorem C5_capacity_error_iff:
  assumes "is_latin1 p"
  shows "(embed_watermark B p = Inl (ValueError ''Watermark data is too large for this image.'')
            \<longleftrightarrow> length B < 8 * length p + 16) \<and>
         (\<not> length B < 8 * length p + 16 \<longrightarrow>
            (\<exists>B'. embed_watermark B p = Inr B' \<and> length B' = length B \<and>
                  take (8 * length p + 16) (lsb_seq B') = str_to_bin p @ eof_marker \<and>
                  (\<forall>i<length B. B' ! i AND 0xFE = B ! i AND 0xFE) \<and>
                  drop (8 * length p + 16) B' = drop (8 * length p + 16) B))"
proof -
  let ?data = "str_to_bin p @ eof_marker"
  let ?W = "write_bits ?data B"
  have n: "length ?data = 8 * length p + 16"
    using assms by (simp add: is_latin1_def length_str_to_bin length_eof_marker)
  have iff: "embed_watermark B p = Inl (ValueError ''Watermark data is too large for this image.'')
      \<longleftrightarrow> length B < 8 * length p + 16"
    using n by (simp add: embed_watermark_cases length_eof_marker)
  have ok: "\<exists>B'. embed_watermark B p = Inr B' \<and> length B' = length B \<and>
      take (8 * length p + 16) (lsb_seq B') = str_to_bin p @ eof_marker \<and>
      (\<forall>i<length B. B' ! i AND 0xFE = B ! i AND 0xFE) \<and>
      drop (8 * length p + 16) B' = drop (8 * length p + 16) B"
    if fit: "\<not> length B < 8 * length p + 16"
  proof -
    from fit n have le: "length ?data \<le> length B" by simp
    from fit n have e: "embed_watermark B p = Inr ?W"
      by (simp add: embed_watermark_cases length_eof_marker)
    have l: "length ?W = length B" by (rule length_write_bits)
    have "lsb_seq ?W = ?data @ drop (length ?data) (lsb_seq B)"
      using le by (rule lsb_seq_write_bits)
    then have "take (length ?data) (lsb_seq ?W) = ?data" by simp
    then have t: "take (8 * length p + 16) (lsb_seq ?W) = ?data" by (simp only: n)
    have u: "\<forall>i<length B. ?W ! i AND 0xFE = B ! i AND 0xFE"
      by (simp add: nth_write_bits high_bits_of_set)
    have d: "drop (8 * length p + 16) ?W = drop (8 * length p + 16) B"
    proof (rule nth_equalityI)
      show "length (drop (8 * length p + 16) ?W) = length (drop (8 * length p + 16) B)"
        by (simp add: l)
    next
      fix i assume "i < length (drop (8 * length p + 16) ?W)"
      then have i: "8 * length p + 16 + i < length B" by (simp add: l)
      with n have "?W ! (8 * length p + 16 + i) = B ! (8 * length p + 16 + i)"
        by (simp add: nth_write_bits)
      with i l show "drop (8 * length p + 16) ?W ! i = drop (8 * length p + 16) B ! i"
        by simp
    qed
    from e l t u d show ?thesis by blast
  qed
  from iff ok show ?thesis by blast
qed

theorem C5_capacity_error_iff_witness:
  "is_latin1 [65] \<and>
   (embed_watermark (replicate 23 0) [65] =
      Inl (ValueError ''Watermark data is too large for this image.'')
    \<longleftrightarrow> length (replicate 23 (0::sample)) < 8 * length [65::nat] + 16) \<and>
   \<not> length (replicate 24 (0::sample)) < 8 * length [65::nat] + 16 \<and>
   (\<exists>B'. embed_watermark (replicate 24 0) [65] = Inr B' \<and>
         length B' = length (replicate 24 (0::sample)) \<and>
         take (8 * length [65::nat] + 16) (lsb_seq B') = str_to_bin [65] @ eof_marker \<and>
         (\<forall>i<length (replicate 24 (0::sample)). B' ! i AND 0xFE = replicate 24 0 ! i AND 0xFE) \<and>
         drop (8 * length [65::nat] + 16) B' = drop (8 * length [65::nat] + 16) (replicate 24 0))"
proof -
  have a: "is_latin1 [65]" by (simp add: is_latin1_def)
  have b: "\<not> length (replicate 24 (0::sample)) < 8 * length [65::nat] + 16" by simp
  from a b C5_capacity_error_iff [OF a, of "replicate 23 0"]
    C5_capacity_error_iff [OF a, of "replicate 24 0"]
  show ?thesis by blast
qed

subsection \<open>C6\<close>

text \<open>
  C6. Let \<open>img\<close> refer to a buffer \<open>B\<close> of the store and let \<open>p\<close> be a payload text (its
  characters have code points below 256, the domain of the text-to-bits conversion; the
  payloads the callers pass are outputs of \<open>json.dumps\<close>, which are ASCII). Then
  \<open>embed_watermark\<close> leaves every object that existed before the call unchanged, the
  caller's buffer included, and its outcome is that of the function on values. On success
  the result is a new object of the length of \<open>B\<close>, equal to \<open>B\<close> at every index
  \<open>\<ge> 8*len(p) + 16\<close> and differing from \<open>B\<close> at most in the least-significant bit at every
  index below. On a capacity error nothing is written: the store only gained two copies
  of \<open>B\<close>.
\<close>

theorem C6_embed_frame:
  assumes "img < length h" and "is_latin1 p" and "embed_watermark_st h img p = (h', r)"
  shows "(\<forall>a<length h. h' ! a = h ! a) \<and>
         map_sum id (\<lambda>out. h' ! out) r = embed_watermark (h ! img) p \<and>
         (case r of
            Inl e \<Rightarrow> length (h ! img) < 8 * length p + 16 \<and> h' = h @ [h ! img, h ! img]
          | Inr out \<Rightarrow>
              length h \<le> out \<and> out < length h' \<and> length (h' ! out) = length (h ! img) \<and>
              (\<forall>i<length (h ! img).
                 (8 * length p + 16 \<le> i \<longrightarrow> h' ! out ! i = h ! img ! i) \<and>
                 (i < 8 * length p + 16 \<longrightarrow> h' ! out ! i AND 0xFE = h ! img ! i AND 0xFE)))"
proof -
  let ?B = "h ! img"
  let ?data = "str_to_bin p @ eof_marker"
  have n: "length ?data = 8 * length p + 16"
    using assms(2) by (simp add: is_latin1_def length_str_to_bin length_eof_marker)
  show ?thesis
  proof (cases "length ?B < 8 * length p + 16")
    case True
    with n have "embed_watermark ?B p = Inl (ValueError ''Watermark data is too large for this image.'')"
      by (simp add: embed_watermark_cases length_eof_marker)
    with assms(1,3) have "h' = h @ [?B, ?B]"
      and "r = Inl (ValueError ''Watermark data is too large for this image.'')"
      by (simp_all add: embed_watermark_st_eq)
    with True n show ?thesis
      by (simp add: nth_append embed_watermark_cases length_eof_marker)
  next
    case False
    let ?W = "write_bits ?data ?B"
    from False n have e: "embed_watermark ?B p = Inr ?W"
      by (simp add: embed_watermark_cases length_eof_marker)
    with assms(1,3) have h': "h' = h @ [?B, ?W, ?W]" and r: "r = Inr (length h + 2)"
      by (simp_all add: embed_watermark_st_eq)
    have w: "h' ! Suc (Suc (length h)) = ?W" unfolding h' by (simp add: nth_append)
    have frame: "(8 * length p + 16 \<le> i \<longrightarrow> ?W ! i = ?B ! i) \<and>
        (i < 8 * length p + 16 \<longrightarrow> ?W ! i AND 0xFE = ?B ! i AND 0xFE)" if "i < length ?B" for i
      using that n by (simp add: nth_write_bits high_bits_of_set)
    have old: "\<forall>a<length h. h' ! a = h ! a" unfolding h' by (simp add: nth_append)
    have new: "length h \<le> length h + 2 \<and> length h + 2 < length h'" unfolding h' by simp
    from old new frame e show ?thesis
      unfolding r by (simp add: w length_write_bits)
  qed
qed

theorem C6_embed_frame_witness:
  "(0::nat) < length [replicate 24 0 @ [5::sample]] \<and> is_latin1 [65] \<and>
   embed_watermark_st [replicate 24 0 @ [5]] 0 [65] =
     ([replicate 24 0 @ [5], replicate 24 0 @ [5],
       [0, 1, 0, 0, 0, 0, 0, 1, 1, 1, 1, 1, 1, 1, 1, 1, 1, 1, 1, 1, 1, 1, 1, 0, 5],
       [0, 1, 0, 0, 0, 0, 0, 1, 1, 1, 1, 1, 1, 1, 1, 1, 1, 1, 1, 1, 1, 1, 1, 0, 5]], Inr 3) \<and>
   map_sum id
     (\<lambda>out. [replicate 24 0 @ [5], replicate 24 0 @ [5],
       [0, 1, 0, 0, 0, 0, 0, 1, 1, 1, 1, 1, 1, 1, 1, 1, 1, 1, 1, 1, 1, 1, 1, 0, 5],
       [0, 1, 0, 0, 0, 0, 0, 1, 1, 1, 1, 1, 1, 1, 1, 1, 1, 1, 1, 1, 1, 1, 1, 0, 5]] ! out)
     (Inr 3) = embed_watermark ([replicate 24 0 @ [5]] ! 0) [65] \<and>
   embed_watermark_st [replicate 23 0] 0 [65] =
     ([replicate 23 0, replicate 23 0, replicate 23 0],
      Inl (ValueError ''Watermark data is too large for this image.'')) \<and>
   length ([replicate 23 (0::sample)] ! 0) < 8 * length [65::nat] + 16"
proof -
  let ?h = "[replicate 24 0 @ [5::sample]]"
  let ?h' = "[replicate 24 0 @ [5::sample], replicate 24 0 @ [5],
       [0, 1, 0, 0, 0, 0, 0, 1, 1, 1, 1, 1, 1, 1, 1, 1, 1, 1, 1, 1, 1, 1, 1, 0, 5],
       [0, 1, 0, 0, 0, 0, 0, 1, 1, 1, 1, 1, 1, 1, 1, 1, 1, 1, 1, 1, 1, 1, 1, 0, 5]]"
  let ?g = "[replicate 23 (0::sample)]"
  let ?g' = "[replicate 23 (0::sample), replicate 23 0, replicate 23 0]"
  have a: "(0::nat) < length ?h" by simp
  have a': "(0::nat) < length ?g" by simp
  have b: "is_latin1 [65]" by (simp add: is_latin1_def)
  have c: "embed_watermark_st ?h 0 [65] = (?h', Inr 3)" by code_simp
  have d: "embed_watermark_st ?g 0 [65] =
     (?g', Inl (ValueError ''Watermark data is too large for this image.''))" by code_simp
  from a b c d C6_embed_frame [OF a b c] C6_embed_frame [OF a' b d]
  show ?thesis by simp
qed

subsection \<open>C7\<close>

text \<open>
  C7. For every ASCII payload, the bit string \<open>str_to_bin(payload)\<close> contains no
  occurrence of the EOF marker; and whenever \<open>embed_watermark\<close> succeeds, the embedded
  bits (the least-significant bits of the first \<open>8*len(payload) + 16\<close> samples of the
  result) are the payload bits followed by the marker, and the first occurrence of the
  marker among them, and in the whole least-significant-bit sequence of the result, is at
  offset \<open>8*len(payload)\<close>.
\<close>

theorem C7_sentinel_first_at_payload_end:
  assumes "is_ascii payload"
  shows "(\<forall>j. \<not> occurs_at eof_marker (str_to_bin payload) j) \<and>
         (embed_watermark B payload = Inr B' \<longrightarrow>
            take (8 * length payload + 16) (lsb_seq B') = str_to_bin payload @ eof_marker \<and>
            first_occurrence eof_marker (take (8 * length payload + 16) (lsb_seq B'))
              (8 * length payload) \<and>
            first_occurrence eof_marker (lsb_seq B') (8 * length payload))"
proof (intro conjI allI impI)
  fix j show "\<not> occurs_at eof_marker (str_to_bin payload) j"
    using assms by (rule no_sentinel_in_ascii)
next
  assume e: "embed_watermark B payload = Inr B'"
  have n: "length (str_to_bin payload) = 8 * length payload"
    using assms by (simp add: length_str_to_bin is_ascii_latin1)
  from e n have fit: "8 * length payload + 16 \<le> length B"
    and B': "B' = write_bits (str_to_bin payload @ eof_marker) B"
    by (auto simp: embed_watermark_cases split: if_splits)
  from assms fit have s: "lsb_seq B' =
      str_to_bin payload @ eof_marker @ drop (8 * length payload + 16) (lsb_seq B)"
    unfolding B' by (rule lsb_seq_embedded)
  from n show "take (8 * length payload + 16) (lsb_seq B') = str_to_bin payload @ eof_marker"
    unfolding s by (simp add: length_eof_marker)
  from assms show f: "first_occurrence eof_marker (lsb_seq B') (8 * length payload)"
    unfolding s by (rule sentinel_at_end)
  then show "first_occurrence eof_marker (take (8 * length payload + 16) (lsb_seq B'))
      (8 * length payload)"
    by (rule first_occurrence_take) (simp add: length_eof_marker)
qed

theorem C7_sentinel_first_at_payload_end_witness:
  "is_ascii [65] \<and>
   (\<forall>j. \<not> occurs_at eof_marker (str_to_bin [65]) j) \<and>
   embed_watermark (replicate 30 0) [65] =
     Inr [0, 1, 0, 0, 0, 0, 0, 1, 1, 1, 1, 1, 1, 1, 1, 1, 1, 1, 1, 1, 1, 1, 1, 0,
          0, 0, 0, 0, 0, 0] \<and>
   first_occurrence eof_marker
     (lsb_seq [0, 1, 0, 0, 0, 0, 0, 1, 1, 1, 1, 1, 1, 1, 1, 1, 1, 1, 1, 1, 1, 1, 1, 0,
               0, 0, 0, 0, 0, 0]) (8 * length [65::nat])"
proof -
  have a: "is_ascii [65]" by (simp add: is_ascii_def)
  have b: "embed_watermark (replicate 30 0) [65] =
     Inr [0, 1, 0, 0, 0, 0, 0, 1, 1, 1, 1, 1, 1, 1, 1, 1, 1, 1, 1, 1, 1, 1, 1, 0,
          0, 0, 0, 0, 0, 0]" by code_simp
  from a b C7_sentinel_first_at_payload_end [OF a, of "replicate 30 0"
     "[0, 1, 0, 0, 0, 0, 0, 1, 1, 1, 1, 1, 1, 1, 1, 1, 1, 1, 1, 1, 1, 1, 1, 0,
          0, 0, 0, 0, 0, 0]"]
  show ?thesis by blast
qed

subsection \<open>C8\<close>

text \<open>
  C8. \<open>bin_to_str\<close> drops a trailing group shorter than 8 bits: its result on \<open>b\<close> is its
  result on the first \<open>8*floor(len(b)/8)\<close> bits of \<open>b\<close>; and the result lists, for each
  full 8-bit group from left to right, the character whose code point is the unsigned
  value of the group.
\<close>

theorem C8_bin_to_str_groups:
  "bin_to_str b = bin_to_str (take (8 * (length b div 8)) b) \<and>
   bin_to_str b = map (\<lambda>k. group_value (take 8 (drop (8 * k) b))) [0..<length b div 8]"
proof
  have le: "8 * (length b div 8) \<le> length b" by simp
  have "bin_to_str (take (8 * (length b div 8)) b) =
      map (\<lambda>k. int_base2 (take 8 (drop (8 * k) (take (8 * (length b div 8)) b))))
        [0..<length b div 8]"
    using le by (simp add: bin_to_str_groups [of "take (8 * (length b div 8)) b"] min_def)
  also have "\<dots> = map (\<lambda>k. int_base2 (take 8 (drop (8 * k) b))) [0..<length b div 8]"
  proof (rule map_cong [OF refl])
    fix k assume "k \<in> set [0..<length b div 8]"
    then have "8 * k + 8 \<le> 8 * (length b div 8)" by simp
    then have "take 8 (drop (8 * k) (take (8 * (length b div 8)) b)) = take 8 (drop (8 * k) b)"
      by (simp add: drop_take min_def)
    then show "int_base2 (take 8 (drop (8 * k) (take (8 * (length b div 8)) b))) =
        int_base2 (take 8 (drop (8 * k) b))" by simp
  qed
  also have "\<dots> = bin_to_str b" by (rule bin_to_str_groups [symmetric])
  finally show "bin_to_str b = bin_to_str (take (8 * (length b div 8)) b)" by simp
next
  have "map (\<lambda>k. int_base2 (take 8 (drop (8 * k) b))) [0..<length b div 8] =
      map (\<lambda>k. group_value (take 8 (drop (8 * k) b))) [0..<length b div 8]"
  proof (rule map_cong [OF refl])
    fix k assume "k \<in> set [0..<length b div 8]"
    then have "Suc k \<le> length b div 8" by simp
    then have "8 * Suc k \<le> 8 * (length b div 8)" by (simp only: mult_le_mono2)
    also have "\<dots> \<le> length b" by simp
    finally have "length (take 8 (drop (8 * k) b)) = 8" by simp
    then show "int_base2 (take 8 (drop (8 * k) b)) = group_value (take 8 (drop (8 * k) b))"
      by (rule int_base2_group_value)
  qed
  then show "bin_to_str b = map (\<lambda>k. group_value (take 8 (drop (8 * k) b))) [0..<length b div 8]"
    by (simp add: bin_to_str_groups)
qed

subsection \<open>C9\<close>

text \<open>
  C9. \<open>extract_watermark\<close> reads at most the first \<open>min(len(buffer), 4096*8*3)\<close> samples,
  and \<open>4096*8*3 = 98304\<close>: its result on a buffer is its result on the first 98304
  samples. When the least-significant bits of that prefix contain no occurrence of the EOF
  marker, the result is \<open>None\<close>. In particular, after embedding an ASCII payload of at
  least 12288 characters, whose marker lies beyond the prefix, the result is \<open>None\<close>.
\<close>

theorem C9_capped_scan:
  "(4096 * 8 * 3 = (98304::nat)) \<and>
   extract_watermark B = extract_watermark (take 98304 B) \<and>
   ((\<forall>j. \<not> occurs_at eof_marker (take 98304 (lsb_seq B)) j) \<longrightarrow>
      extract_watermark B = None) \<and>
   (is_ascii p \<and> 98304 \<le> 8 * length p \<and> embed_watermark B p = Inr B' \<longrightarrow>
      extract_watermark B' = None)"
proof (intro conjI impI)
  show "4096 * 8 * 3 = (98304::nat)" by simp
  show "extract_watermark B = extract_watermark (take 98304 B)"
    by (simp add: extract_watermark_bits lsb_seq_take)
  show "extract_watermark B = None" if "\<forall>j. \<not> occurs_at eof_marker (take 98304 (lsb_seq B)) j"
    using that by (intro extract_watermark_none) simp
  show "extract_watermark B' = None"
    if h: "is_ascii p \<and> 98304 \<le> 8 * length p \<and> embed_watermark B p = Inr B'"
  proof -
    from h have a: "is_ascii p" and big: "98304 < 8 * length p + 16"
      and e: "embed_watermark B p = Inr B'" by simp_all
    have n: "length (str_to_bin p) = 8 * length p"
      using a by (simp add: length_str_to_bin is_ascii_latin1)
    from e n have fit: "8 * length p + 16 \<le> length B"
      and B': "B' = write_bits (str_to_bin p @ eof_marker) B"
      by (auto simp: embed_watermark_cases split: if_splits)
    from a fit big show ?thesis unfolding B' by (rule extract_embedded_beyond_cap)
  qed
qed

theorem C9_capped_scan_witness:
  "(\<forall>j. \<not> occurs_at eof_marker
          (take 98304 (lsb_seq [1, 1, 1, 1, 1, 1, 1, 1, 1, 1, 1, 1, 1, 1, 0, 1, 1, 1, 0, 7])) j) \<and>
   extract_watermark [1, 1, 1, 1, 1, 1, 1, 1, 1, 1, 1, 1, 1, 1, 0, 1, 1, 1, 0, 7] = None \<and>
   is_ascii (replicate 12288 97) \<and> 98304 \<le> 8 * length (replicate 12288 (97::nat)) \<and>
   embed_watermark (replicate 98320 0) (replicate 12288 97) =
     Inr (write_bits (str_to_bin (replicate 12288 97) @ eof_marker) (replicate 98320 0)) \<and>
   extract_watermark
     (write_bits (str_to_bin (replicate 12288 97) @ eof_marker) (replicate 98320 0)) = None"
proof -
  let ?B = "[1, 1, 1, 1, 1, 1, 1, 1, 1, 1, 1, 1, 1, 1, 0, 1, 1, 1, 0, 7] :: buffer"
  have "str_find (lsb_seq ?B) eof_marker = - 1" by code_simp
  then have a: "\<forall>j. \<not> occurs_at eof_marker (take 98304 (lsb_seq ?B)) j"
    by (simp add: str_find_none occurs_at_take)
  have b: "is_ascii (replicate 12288 97)" by (simp add: is_ascii_def list_all_iff)
  have c: "98304 \<le> 8 * length (replicate 12288 (97::nat))" by simp
  have d: "embed_watermark (replicate 98320 0) (replicate 12288 97) =
     Inr (write_bits (str_to_bin (replicate 12288 97) @ eof_marker) (replicate 98320 0))"
    using b by (intro embed_watermark_fits is_ascii_latin1) simp_all
  from a b c d C9_capped_scan [of ?B] C9_capped_scan [of "replicate 98320 0" "replicate 12288 97"
      "write_bits (str_to_bin (replicate 12288 97) @ eof_marker) (replicate 98320 0)"]
  show ?thesis by blast
qed

subsection \<open>C10\<close>

text \<open>
  C10. When the first occurrence of the EOF marker in the least-significant-bit sequence
  of the whole buffer lies entirely within the first 98304 bits, the capped extractor of
  backend.py and the uncapped extractor of watermark\_gui.py return the same result. The
  two results differ only for a buffer whose first occurrence of the marker extends past
  that prefix.
\<close>

theorem C10_capped_and_uncapped_agree:
  "(first_occurrence eof_marker (lsb_seq B) e \<and> e + 16 \<le> 98304 \<longrightarrow>
      extract_watermark B = gui_extract_watermark B) \<and>
   (extract_watermark B \<noteq> gui_extract_watermark B \<longrightarrow>
      (\<exists>e'. first_occurrence eof_marker (lsb_seq B) e' \<and> 98304 < e' + 16))"
proof -
  have within: "extract_watermark B = gui_extract_watermark B"
    if f: "first_occurrence eof_marker (lsb_seq B) k" and le: "k + 16 \<le> 98304" for k
  proof -
    from f le have "first_occurrence eof_marker (take 98304 (lsb_seq B)) k"
      by (intro first_occurrence_take) (simp_all add: length_eof_marker)
    then have "extract_watermark B = Some (bin_to_str (take k (lsb_seq B)))"
      by (rule extract_watermark_some)
    moreover from f have "gui_extract_watermark B = Some (bin_to_str (take k (lsb_seq B)))"
      by (rule gui_extract_watermark_some)
    ultimately show ?thesis by simp
  qed
  have absent: "extract_watermark B = gui_extract_watermark B"
    if no: "\<forall>j. \<not> occurs_at eof_marker (lsb_seq B) j"
  proof -
    from no have "extract_watermark B = None"
      by (intro extract_watermark_none) (simp add: occurs_at_take)
    moreover from no have "gui_extract_watermark B = None"
      by (intro gui_extract_watermark_none) simp
    ultimately show ?thesis by simp
  qed
  show ?thesis
  proof (intro conjI impI)
    assume "first_occurrence eof_marker (lsb_seq B) e \<and> e + 16 \<le> 98304"
    then show "extract_watermark B = gui_extract_watermark B" using within by blast
  next
    assume ne: "extract_watermark B \<noteq> gui_extract_watermark B"
    with absent obtain j where "occurs_at eof_marker (lsb_seq B) j" by blast
    then obtain k where k: "first_occurrence eof_marker (lsb_seq B) k"
      using first_occurrence_exists by blast
    with within ne have "98304 < k + 16" by (meson not_le)
    with k show "\<exists>e'. first_occurrence eof_marker (lsb_seq B) e' \<and> 98304 < e' + 16" by blast
  qed
qed

theorem C10_capped_and_uncapped_agree_witness:
  "first_occurrence eof_marker
     (lsb_seq [0, 1, 0, 0, 0, 0, 0, 1, 1, 1, 1, 1, 1, 1, 1, 1, 1, 1, 1, 1, 1, 1, 1, 0, 5, 4]) 8 \<and>
   (8::nat) + 16 \<le> 98304 \<and>
   extract_watermark [0, 1, 0, 0, 0, 0, 0, 1, 1, 1, 1, 1, 1, 1, 1, 1, 1, 1, 1, 1, 1, 1, 1, 0, 5, 4] =
     gui_extract_watermark
       [0, 1, 0, 0, 0, 0, 0, 1, 1, 1, 1, 1, 1, 1, 1, 1, 1, 1, 1, 1, 1, 1, 1, 0, 5, 4] \<and>
   extract_watermark (replicate 98304 0 @ replicate 15 1 @ [0]) \<noteq>
     gui_extract_watermark (replicate 98304 0 @ replicate 15 1 @ [0]) \<and>
   (\<exists>e'. first_occurrence eof_marker (lsb_seq (replicate 98304 0 @ replicate 15 1 @ [0])) e' \<and>
         98304 < e' + 16)"
proof -
  let ?B = "[0, 1, 0, 0, 0, 0, 0, 1, 1, 1, 1, 1, 1, 1, 1, 1, 1, 1, 1, 1, 1, 1, 1, 0, 5, 4] :: buffer"
  let ?C = "replicate 98304 0 @ replicate 15 1 @ [0] :: buffer"
  have "str_find (lsb_seq ?B) eof_marker = int 8" by code_simp
  then have a: "first_occurrence eof_marker (lsb_seq ?B) 8" by (simp only: str_find_first)
  have b: "(8::nat) + 16 \<le> 98304" by simp
  have f: "first_occurrence eof_marker (lsb_seq ?C) 98304"
    unfolding lsb_seq_zeros_marker by (rule first_occurrence_after_zeros)
  have "extract_watermark ?C = None"
  proof (rule extract_watermark_none)
    fix j from f show "\<not> occurs_at eof_marker (take 98304 (lsb_seq ?C)) j"
      by (rule first_occurrence_beyond) (simp add: length_eof_marker)
  qed
  moreover from f have "gui_extract_watermark ?C = Some (bin_to_str (take 98304 (lsb_seq ?C)))"
    by (rule gui_extract_watermark_some)
  ultimately have c: "extract_watermark ?C \<noteq> gui_extract_watermark ?C" by simp
  from a b c C10_capped_and_uncapped_agree [of ?B 8] C10_capped_and_uncapped_agree [of ?C 0]
  show ?thesis by blast
qed

end
